theory Spec2Isabelle
  imports Main "HOL-Library.Sublist"
begin

section \<open>JavaScript strings\<close>

text \<open>
  A JavaScript string is a sequence of UTF-16 code units, and \<open>length\<close>, \<open>substring\<close>,
  \<open>includes\<close> and the regular expressions of the scraper (none has the \<open>u\<close> flag) all
  count code units. A code unit is a natural number here (below 65536 in a program's string;
  nothing below depends on the bound). \<open>js\<close> turns a literal into its code units.
\<close>

type_synonym jsstring = "nat list"

definition js :: "string \<Rightarrow> jsstring" where
  "js s = map of_char s"

text \<open>
  The class \<open>\s\<close> of a regular expression and the characters \<open>trim\<close> strips are the same
  set: WhiteSpace (TAB, VT, FF, SP, NBSP, ZWNBSP U+FEFF and the space separators U+1680,
  U+2000..U+200A, U+202F, U+205F, U+3000) and LineTerminator (LF, CR, U+2028, U+2029).
\<close>

definition isWhiteSpace :: "nat \<Rightarrow> bool" where
  "isWhiteSpace c \<longleftrightarrow>
     c = 9 \<or> c = 10 \<or> c = 11 \<or> c = 12 \<or> c = 13 \<or> c = 32 \<or> c = 160 \<or> c = 5760 \<or>
     (8192 \<le> c \<and> c \<le> 8202) \<or> c = 8232 \<or> c = 8233 \<or> c = 8239 \<or> c = 8287 \<or>
     c = 12288 \<or> c = 65279"

text \<open>The class \<open>\d\<close>: the ASCII digits.\<close>

definition isDigit :: "nat \<Rightarrow> bool" where
  "isDigit c \<longleftrightarrow> 48 \<le> c \<and> c \<le> 57"

text \<open>\<^verbatim>\<open>s.replace(/\u00a0/g, ' ')\<close>: U+00A0 is the code unit 160.\<close>

definition replaceNbsp :: "jsstring \<Rightarrow> jsstring" where
  "replaceNbsp s = map (\<lambda>c. if c = 160 then 32 else c) s"

text \<open>\<open>s.replace(/\s+/g, ' ')\<close>: every maximal run of white space becomes one space.\<close>

function collapseSpaces :: "jsstring \<Rightarrow> jsstring" where
  "collapseSpaces [] = []"
| "collapseSpaces (c # cs) =
     (if isWhiteSpace c then 32 # collapseSpaces (dropWhile isWhiteSpace cs)
      else c # collapseSpaces cs)"
  by pat_completeness auto
termination
  by (relation "measure length") (auto simp: less_Suc_eq_le length_dropWhile_le)

text \<open>\<open>s.trim()\<close>\<close>

definition trim :: "jsstring \<Rightarrow> jsstring" where
  "trim s = rev (dropWhile isWhiteSpace (rev (dropWhile isWhiteSpace s)))"

text \<open>\<open>s.includes(k)\<close>: \<open>k\<close> occurs in \<open>s\<close> as a contiguous run of code units.\<close>

fun includes_js :: "jsstring \<Rightarrow> jsstring \<Rightarrow> bool" where
  "includes_js [] k = (k = [])"
| "includes_js (c # cs) k = (prefix k (c # cs) \<or> includes_js cs k)"

text \<open>
  \<open>s.substring(indexStart, indexEnd)\<close>: both indices are clamped to \<open>0 .. s.length\<close> and
  swapped when the first is the larger.
\<close>

definition substring :: "jsstring \<Rightarrow> int \<Rightarrow> int \<Rightarrow> jsstring" where
  "substring s indexStart indexEnd =
     (let len = int (length s);
          a = min (max indexStart 0) len;
          b = min (max indexEnd 0) len;
          lo = min a b;
          hi = max a b
      in take (nat (hi - lo)) (drop (nat lo) s))"

text \<open>
  \<open>String.prototype.toUpperCase\<close> is the engine's Unicode case conversion. The scraper's
  functions below take it as the parameter \<open>toUpperCase\<close>, so what is proved of them holds
  of any conversion. On a string of ASCII code units the conversion is the following
  function, which instantiates the parameter at concrete inputs.
\<close>

definition toUpperCaseASCII :: "jsstring \<Rightarrow> jsstring" where
  "toUpperCaseASCII s = map (\<lambda>c. if 97 \<le> c \<and> c \<le> 122 then c - 32 else c) s"

section \<open>The normalizer \<open>cleanText\<close>\<close>

text \<open>
  \<^verbatim>\<open>
  const cleanText = (text: string | null | undefined): string => {
    if (!text) return '';
    return text.replace(/\u00a0/g, ' ').replace(/\s+/g, ' ').trim();
  };
  \<close>
  \<open>None\<close> is \<open>null\<close> or \<open>undefined\<close>; the empty string is falsy as well.
\<close>

definition cleanText :: "jsstring option \<Rightarrow> jsstring" where
  "cleanText text =
     (case text of
        None \<Rightarrow> []
      | Some t \<Rightarrow> if t = [] then [] else trim (collapseSpaces (replaceNbsp t)))"

section \<open>The docket pattern and its backtracking matcher\<close>

text \<open>
  The regular expressions of the scraper quantify character classes only, so the syntax
  tree has the greedy \<open>c+\<close>, the lazy \<open>c*?\<close> and the counted \<open>c{n}\<close> of a class \<open>c\<close>,
  besides literals, sequence, alternation and capture groups.
\<close>

datatype regex =
    Lit jsstring
  | Seq regex regex
  | Alt regex regex
  | Plus "nat \<Rightarrow> bool"
  | LazyStar "nat \<Rightarrow> bool"
  | Times nat "nat \<Rightarrow> bool"
  | Group nat regex

type_synonym captures = "(nat \<times> jsstring) list"

text \<open>
  \<open>paths r (s, caps)\<close> lists every way \<open>r\<close> matches a prefix of the remaining input \<open>s\<close>,
  as the rest of the input and the captures afterwards, in the order in which a
  backtracking matcher tries them: the left alternative before the right one, the longest
  run of a greedy quantifier first, the shortest run of a lazy one first. The first path
  that lets the rest of the pattern succeed is the match.
\<close>

fun paths :: "regex \<Rightarrow> jsstring \<times> captures \<Rightarrow> (jsstring \<times> captures) list" where
  "paths (Lit l) (s, caps) = (if prefix l s then [(drop (length l) s, caps)] else [])"
| "paths (Seq r1 r2) st = concat (map (paths r2) (paths r1 st))"
| "paths (Alt r1 r2) st = paths r1 st @ paths r2 st"
| "paths (Plus cls) (s, caps) =
     map (\<lambda>k. (drop k s, caps)) (rev [1 ..< Suc (length (takeWhile cls s))])"
| "paths (LazyStar cls) (s, caps) =
     map (\<lambda>k. (drop k s, caps)) [0 ..< Suc (length (takeWhile cls s))]"
| "paths (Times n cls) (s, caps) =
     (if n \<le> length s \<and> list_all cls (take n s) then [(drop n s, caps)] else [])"
| "paths (Group i r) (s, caps) =
     map (\<lambda>(s', caps'). (s', (i, take (length s - length s') s) # caps')) (paths r (s, caps))"

text \<open>
  \<^verbatim>\<open>/((?:MC|FF|MX|MX-MC)-\d+)\s+([\s\S]*?)\s+(\d{2}\/\d{2}\/\d{4})/g\<close>
\<close>

definition docketToken :: regex where
  "docketToken =
     Seq (Alt (Lit (js ''MC'')) (Alt (Lit (js ''FF'')) (Alt (Lit (js ''MX'')) (Lit (js ''MX-MC'')))))
         (Seq (Lit (js ''-'')) (Plus isDigit))"

definition dateToken :: regex where
  "dateToken =
     Seq (Times 2 isDigit) (Seq (Lit (js ''/'')) (Seq (Times 2 isDigit)
         (Seq (Lit (js ''/'')) (Times 4 isDigit))))"

definition pattern :: regex where
  "pattern =
     Seq (Group 1 docketToken)
    (Seq (Plus isWhiteSpace)
    (Seq (Group 2 (LazyStar (\<lambda>c. True)))
    (Seq (Plus isWhiteSpace)
         (Group 3 dateToken))))"

text \<open>The fewest code units a match of \<open>r\<close> takes (used for the termination of the scan).\<close>

fun minLength :: "regex \<Rightarrow> nat" where
  "minLength (Lit l) = length l"
| "minLength (Seq r1 r2) = minLength r1 + minLength r2"
| "minLength (Alt r1 r2) = min (minLength r1) (minLength r2)"
| "minLength (Plus cls) = 1"
| "minLength (LazyStar cls) = 0"
| "minLength (Times n cls) = n"
| "minLength (Group i r) = minLength r"

text \<open>
  The result of \<open>pattern.exec(rawText)\<close>: \<open>index\<close> is \<open>match.index\<close>, \<open>groups\<close> holds
  \<open>match[1]\<close>, \<open>match[2]\<close>, \<open>match[3]\<close>, and \<open>nextIndex\<close> is the \<open>lastIndex\<close> the call
  leaves in the pattern (the end of the match).
\<close>

record execResult =
  index :: nat
  groups :: captures
  nextIndex :: nat

text \<open>
  \<open>search s i\<close> tries the pattern at the start of \<open>s\<close>, which is \<open>rawText\<close> from offset
  \<open>i\<close>, and one code unit further on while it fails there: the leftmost match wins.
\<close>

fun search :: "jsstring \<Rightarrow> nat \<Rightarrow> (nat \<times> jsstring \<times> captures) option" where
  "search s i =
     (case paths pattern (s, []) of
        (rest, caps) # _ \<Rightarrow> Some (i, rest, caps)
      | [] \<Rightarrow> (case s of [] \<Rightarrow> None | _ # s' \<Rightarrow> search s' (Suc i)))"

definition exec :: "jsstring \<Rightarrow> nat \<Rightarrow> execResult option" where
  "exec rawText lastIndex =
     (if length rawText < lastIndex then None
      else case search (drop lastIndex rawText) lastIndex of
             None \<Rightarrow> None
           | Some (i, rest, caps) \<Rightarrow>
               Some \<lparr>index = i, groups = caps, nextIndex = length rawText - length rest\<rparr>)"

text \<open>
  \<open>match[i]\<close>. A group that took no part in the match is \<open>undefined\<close> in JavaScript; each
  of the three groups of \<open>pattern\<close> is on every path of a match.
\<close>

definition matchGroup :: "execResult \<Rightarrow> nat \<Rightarrow> jsstring" where
  "matchGroup m i = (case map_of (groups m) i of None \<Rightarrow> [] | Some g \<Rightarrow> g)"

section \<open>Extraction, classification and deduplication\<close>

record entry =
  number :: jsstring
  title :: jsstring
  decided :: jsstring
  category :: jsstring

text \<open>
  The category table. \<open>Object.entries\<close> lists the keys of an object literal in the order
  they are written (none of them is an integer index), so the table is an association list
  in the declared order.
\<close>

definition categoryKeywords :: "(jsstring \<times> jsstring list) list" where
  "categoryKeywords =
     [(js ''NAME CHANGE'', [js ''NAME CHANGES'']),
      (js ''CERTIFICATE, PERMIT, LICENSE'', [js ''CERTIFICATES, PERMITS & LICENSES'']),
      (js ''CERTIFICATE OF REGISTRATION'', [js ''CERTIFICATES OF REGISTRATION'']),
      (js ''DISMISSAL'', [js ''DISMISSALS'']),
      (js ''WITHDRAWAL'', [js ''WITHDRAWAL OF APPLICATION'']),
      (js ''REVOCATION'', [js ''REVOCATIONS'']),
      (js ''TRANSFERS'', [js ''TRANSFERS'']),
      (js ''GRANT DECISION NOTICES'', [js ''GRANT DECISION NOTICES''])]"

text \<open>
  \<^verbatim>\<open>
  let category = 'MISCELLANEOUS';
  for (const [catName, keywords] of Object.entries(categoryKeywords)) {
    if (keywords.some(k => contextText.includes(k))) {
      category = catName;
    }
  }
  \<close>
\<close>

definition detectCategory :: "jsstring \<Rightarrow> jsstring" where
  "detectCategory contextText =
     foldl (\<lambda>category (catName, keywords).
              if list_ex (\<lambda>k. includes_js contextText k) keywords then catName else category)
           (js ''MISCELLANEOUS'') categoryKeywords"

text \<open>
  \<^verbatim>\<open>rawText.substring(Math.max(0, beforeIndex - 1500), beforeIndex).toUpperCase()\<close>
\<close>

definition contextText :: "(jsstring \<Rightarrow> jsstring) \<Rightarrow> jsstring \<Rightarrow> nat \<Rightarrow> jsstring" where
  "contextText toUpperCase rawText beforeIndex =
     toUpperCase (substring rawText (max 0 (int beforeIndex - 1500)) (int beforeIndex))"

text \<open>
  The scan: \<open>while ((match = pattern.exec(rawText)) !== null) { ... }\<close>. The state of the
  loop is the \<open>lastIndex\<close> of the pattern and the entries pushed so far; \<open>continue\<close> goes
  round without a push.
\<close>

function scanLoop ::
  "(jsstring \<Rightarrow> jsstring) \<Rightarrow> jsstring \<Rightarrow> nat \<Rightarrow> entry list \<Rightarrow> entry list" where
  "scanLoop toUpperCase rawText lastIndex entries =
     (case exec rawText lastIndex of
        None \<Rightarrow> entries
      | Some m \<Rightarrow>
          (if 500 < length (trim (collapseSpaces (matchGroup m 2)))
           then scanLoop toUpperCase rawText (nextIndex m) entries
           else scanLoop toUpperCase rawText (nextIndex m)
                  (entries @
                    [\<lparr>number = matchGroup m 1,
                      title = trim (collapseSpaces (matchGroup m 2)),
                      decided = matchGroup m 3,
                      category = detectCategory (contextText toUpperCase rawText (index m))\<rparr>])))"
  by pat_completeness auto
termination
proof -
  have shorter: "length s' + minLength r \<le> length s"
    if "(s', caps') \<in> set (paths r (s, caps))" for r s caps s' caps'
    using that
  proof (induction r arbitrary: s caps s' caps')
    case (Lit l)
    then show ?case by (auto simp: prefix_def split: if_splits)
  next
    case (Seq r1 r2)
    then obtain mid capsm where m1: "(mid, capsm) \<in> set (paths r1 (s, caps))"
      and m2: "(s', caps') \<in> set (paths r2 (mid, capsm))"
      by auto
    from Seq.IH(1)[OF m1] Seq.IH(2)[OF m2] show ?case by simp
  next
    case (Alt r1 r2)
    then show ?case by fastforce
  next
    case (Plus cls)
    then obtain k where "1 \<le> k" "k \<le> length (takeWhile cls s)" "s' = drop k s"
      by auto
    moreover have "length (takeWhile cls s) \<le> length s" by (rule length_takeWhile_le)
    ultimately show ?case by simp
  next
    case (LazyStar cls)
    then show ?case by auto
  next
    case (Times n cls)
    then show ?case by (auto split: if_splits)
  next
    case (Group i r)
    then show ?case by auto
  qed
  have step: "lastIndex < nextIndex m \<and> nextIndex m \<le> length rawText"
    if e: "exec rawText lastIndex = Some m" for rawText lastIndex m
  proof -
    from e have le: "lastIndex \<le> length rawText"
      by (auto simp: exec_def split: if_splits)
    from e obtain i rest caps where
      s: "search (drop lastIndex rawText) lastIndex = Some (i, rest, caps)"
      and n: "nextIndex m = length rawText - length rest"
      by (auto simp: exec_def split: if_splits option.splits)
    have found: "length rest + minLength pattern \<le> length s"
      if "search s j = Some (i, rest, caps)" for s j
      using that
    proof (induction s j rule: search.induct)
      case (1 s j)
      show ?case
      proof (cases "paths pattern (s, [])")
        case Nil
        with "1.prems" obtain c s' where sc: "s = c # s'"
          and rec: "search s' (Suc j) = Some (i, rest, caps)"
          by (cases s) auto
        from "1.IH"[OF Nil sc rec] sc show ?thesis by simp
      next
        case (Cons p ps)
        with "1.prems" have "p = (rest, caps)" by (cases p) auto
        with Cons have "(rest, caps) \<in> set (paths pattern (s, []))" by simp
        then show ?thesis by (rule shorter)
      qed
    qed
    have "minLength pattern = 16"
      by (simp add: pattern_def docketToken_def dateToken_def js_def)
    with found[OF s] have "length rest + 16 \<le> length rawText - lastIndex" by simp
    with le n show ?thesis by simp
  qed
  show ?thesis
    by (relation "measure (\<lambda>(toUpperCase, rawText, lastIndex, entries). length rawText - lastIndex)")
       (auto dest!: step)
qed

declare scanLoop.simps [simp del]

text \<open>
  \<open>self.findIndex(p)\<close> is the index of the first element that satisfies \<open>p\<close>, and \<open>-1\<close>
  when there is none; \<open>self.filter(f)\<close> keeps the elements \<open>f(element, index, self)\<close>
  accepts, in their order.
\<close>

fun findIndexFrom :: "('a \<Rightarrow> bool) \<Rightarrow> 'a list \<Rightarrow> int \<Rightarrow> int" where
  "findIndexFrom p [] i = - 1"
| "findIndexFrom p (x # xs) i = (if p x then i else findIndexFrom p xs (i + 1))"

definition findIndex :: "('a \<Rightarrow> bool) \<Rightarrow> 'a list \<Rightarrow> int" where
  "findIndex p self = findIndexFrom p self 0"

definition filterIndexed :: "('a \<Rightarrow> int \<Rightarrow> 'a list \<Rightarrow> bool) \<Rightarrow> 'a list \<Rightarrow> 'a list" where
  "filterIndexed f self =
     map fst (filter (\<lambda>(x, i). f x i self) (zip self (map int [0 ..< length self])))"

text \<open>
  \<^verbatim>\<open>
  const uniqueEntries = entries.filter((entry, index, self) =>
    index === self.findIndex((e) => e.number === entry.number && e.title === entry.title)
  );
  \<close>
\<close>

definition uniqueEntries :: "entry list \<Rightarrow> entry list" where
  "uniqueEntries entries =
     filterIndexed
       (\<lambda>entry index self.
          index = findIndex (\<lambda>e. number e = number entry \<and> title e = title entry) self)
       entries"

text \<open>The body of both handlers from \<open>rawText\<close> on: the scan, then the deduplication.\<close>

definition extractEntries :: "(jsstring \<Rightarrow> jsstring) \<Rightarrow> jsstring \<Rightarrow> entry list" where
  "extractEntries toUpperCase rawText = uniqueEntries (scanLoop toUpperCase rawText 0 [])"

section \<open>The two HTTP handlers\<close>

text \<open>
  Both handlers answer with a status code and a JSON body. A field the handler does not
  write is \<open>None\<close>. \<open>lastUpdated\<close> is \<open>new Date().toISOString()\<close>, the parameter \<open>now\<close>.
\<close>

record responseBody =
  success :: "bool option"
  error :: "string option"
  details :: "string option"
  count :: "nat option"
  date :: "jsstring option"
  lastUpdated :: "string option"
  entries :: "entry list option"

datatype response = Json nat responseBody | End nat

definition emptyBody :: responseBody where
  "emptyBody =
     \<lparr>success = None, error = None, details = None, count = None, date = None,
      lastUpdated = None, entries = None\<rparr>"

text \<open>
  \<open>response.data\<close> as axios delivers it. The request sets no \<open>responseType\<close>, so axios
  applies \<open>JSON.parse\<close> to the body of the reply and keeps the body as a string only
  when that fails or gives a string. \<open>Text s\<close> is the string \<open>s\<close>. \<open>Parsed body message\<close> is
  the value parsed from the JSON text \<open>body\<close> when it is not a string (an object, an
  array, a number, a boolean or \<open>null\<close>): such a value has no method \<open>toUpperCase\<close>, and
  \<open>message\<close> is the message of the TypeError that \<open>response.data.toUpperCase()\<close> raises
  on it.
\<close>

datatype responseData = Text jsstring | Parsed jsstring string

text \<open>
  The route \<open>POST /api/fmcsa-register\<close> of the Express server. \<open>fetched\<close> is the outcome of
  \<open>axios.post\<close>: \<open>Inr d\<close> is a reply with \<open>response.data = d\<close>, \<open>Inl message\<close> an exception
  with that message. The marker check is inside the \<open>try\<close> block, so the \<open>catch\<close> block
  answers both the exception of the request and the TypeError of the check.
  \<open>cheerioText data\<close> is \<open>cheerio.load(data).text()\<close>, the HTML parser of the cheerio
  library, and \<open>registerDate\<close> the date of the request.
\<close>

definition registerRoute ::
  "(jsstring \<Rightarrow> jsstring) \<Rightarrow> (jsstring \<Rightarrow> jsstring) \<Rightarrow> string \<Rightarrow> jsstring \<Rightarrow>
   string + responseData \<Rightarrow> response" where
  "registerRoute toUpperCase cheerioText now registerDate fetched =
     (case fetched of
        Inl message \<Rightarrow>
          Json 500 (emptyBody\<lparr>success := Some False,
                              error := Some ''Failed to scrape FMCSA register data'',
                              details := Some message,
                              entries := Some []\<rparr>)
      | Inr (Parsed body message) \<Rightarrow>
          Json 500 (emptyBody\<lparr>success := Some False,
                              error := Some ''Failed to scrape FMCSA register data'',
                              details := Some message,
                              entries := Some []\<rparr>)
      | Inr (Text data) \<Rightarrow>
          if \<not> includes_js (toUpperCase data) (js ''FMCSA REGISTER'')
          then Json 400 (emptyBody\<lparr>success := Some False,
                                   error := Some ''Invalid response from FMCSA. The page might not be available for this date.'',
                                   entries := Some []\<rparr>)
          else Json 200 (emptyBody\<lparr>success := Some True,
                                   count := Some (length (extractEntries toUpperCase (cheerioText data))),
                                   date := Some registerDate,
                                   lastUpdated := Some now,
                                   entries := Some (extractEntries toUpperCase (cheerioText data))\<rparr>))"

text \<open>The serverless handler: the same body behind a check of the request method.\<close>

definition serverlessHandler ::
  "(jsstring \<Rightarrow> jsstring) \<Rightarrow> (jsstring \<Rightarrow> jsstring) \<Rightarrow> string \<Rightarrow> string \<Rightarrow> jsstring \<Rightarrow>
   string + responseData \<Rightarrow> response" where
  "serverlessHandler toUpperCase cheerioText now method registerDate fetched =
     (if method = ''OPTIONS'' then End 200
      else if method \<noteq> ''POST'' then Json 405 (emptyBody\<lparr>error := Some ''Method not allowed''\<rparr>)
      else case fetched of
        Inl message \<Rightarrow>
          Json 500 (emptyBody\<lparr>success := Some False,
                              error := Some ''Failed to scrape FMCSA register data'',
                              details := Some message,
                              entries := Some []\<rparr>)
      | Inr (Parsed body message) \<Rightarrow>
          Json 500 (emptyBody\<lparr>success := Some False,
                              error := Some ''Failed to scrape FMCSA register data'',
                              details := Some message,
                              entries := Some []\<rparr>)
      | Inr (Text data) \<Rightarrow>
          if \<not> includes_js (toUpperCase data) (js ''FMCSA REGISTER'')
          then Json 400 (emptyBody\<lparr>success := Some False,
                                   error := Some ''Invalid response from FMCSA'',
                                   entries := Some []\<rparr>)
          else Json 200 (emptyBody\<lparr>success := Some True,
                                   count := Some (length (extractEntries toUpperCase (cheerioText data))),
                                   date := Some registerDate,
                                   lastUpdated := Some now,
                                   entries := Some (extractEntries toUpperCase (cheerioText data))\<rparr>))"

text \<open>
  The markup a reply carries: the string itself, or the JSON text axios has parsed.
\<close>

definition rawMarkup :: "responseData \<Rightarrow> jsstring" where
  "rawMarkup d = (case d of Text s \<Rightarrow> s | Parsed body message \<Rightarrow> body)"

section \<open>The persistence service\<close>

text \<open>
  A row of the table \<open>fmcsa_register\<close> (the interface \<open>FMCSARegisterEntry\<close>): the four
  fields of an entry, \<open>date_fetched\<close> and the optional \<open>id\<close> (here \<open>row_id\<close>),
  \<open>created_at\<close> and \<open>updated_at\<close>.
\<close>

record registerRow = entry +
  date_fetched :: jsstring
  row_id :: "jsstring option"
  created_at :: "jsstring option"
  updated_at :: "jsstring option"

text \<open>
  An error object, with its \<open>message\<close>. What awaiting a call of the Supabase client
  gives: the pair \<open>{ data, error }\<close>, or an exception.
\<close>

datatype jsError = JsError (message: string)

datatype 'a supabaseReply = Reply "'a option" "jsError option" | Thrown jsError

text \<open>
  A call \<open>console.error(label, error)\<close>: the service passes a label and the error object
  itself, so what is recorded is the two arguments, not a printed line.
\<close>

datatype consoleCall = ConsoleError string jsError

text \<open>
  The effects of the service: the calls of \<open>console.error\<close> and the state of the storage,
  which only the client's operations change.
\<close>

record 'db world =
  console :: "consoleCall list"
  database :: 'db

datatype saveResult = SaveResult (saved: bool) (failure: "string option") (written: "nat option")

text \<open>
  The records an upsert writes: \<open>entries.map(entry => ({ ..., date_fetched: fetchDate,
  created_at: new Date().toISOString(), updated_at: new Date().toISOString() }))\<close>. The
  clock is read twice for each entry: \<open>now k\<close> is its \<open>k\<close>-th reading.
\<close>

definition prepareRecords :: "(nat \<Rightarrow> jsstring) \<Rightarrow> registerRow list \<Rightarrow> jsstring \<Rightarrow> registerRow list" where
  "prepareRecords now es fetchDate =
     map (\<lambda>(k, e). \<lparr>number = number e, title = title e, decided = decided e,
                    category = category e, date_fetched = fetchDate, row_id = None,
                    created_at = Some (now (2 * k)),
                    updated_at = Some (now (2 * k + 1))\<rparr>)
         (enumerate 0 es)"

text \<open>
  \<open>saveFMCSARegisterEntries(entries, fetchDate)\<close>. \<open>upsert\<close> is
  \<open>supabase.from('fmcsa_register').upsert(records, { onConflict: 'number,date_fetched' })\<close>;
  \<open>entries0 = None\<close> is \<open>null\<close> or \<open>undefined\<close>. The result \<open>{ success, error?, count? }\<close>
  is \<open>SaveResult success error count\<close>.
\<close>

definition saveFMCSARegisterEntries ::
  "(registerRow list \<Rightarrow> 'db \<Rightarrow> 'r supabaseReply \<times> 'db) \<Rightarrow> (nat \<Rightarrow> jsstring) \<Rightarrow>
   registerRow list option \<Rightarrow> jsstring \<Rightarrow> 'db world \<Rightarrow> saveResult \<times> 'db world" where
  "saveFMCSARegisterEntries upsert now entries0 fetchDate w =
     (case entries0 of
        None \<Rightarrow> (SaveResult True None (Some 0), w)
      | Some es \<Rightarrow>
          if length es = 0 then (SaveResult True None (Some 0), w)
          else
            let records = prepareRecords now es fetchDate
            in case upsert records (database w) of
                 (Thrown err, db') \<Rightarrow>
                   (SaveResult False (Some (message err)) None,
                    w\<lparr>console := console w @ [ConsoleError ''Exception saving FMCSA entries:'' err],
                      database := db'\<rparr>)
               | (Reply data (Some err), db') \<Rightarrow>
                   (SaveResult False (Some (message err)) None,
                    w\<lparr>console := console w @ [ConsoleError ''Supabase save error:'' err],
                      database := db'\<rparr>)
               | (Reply data None, db') \<Rightarrow>
                   (SaveResult True None (Some (length records)), w\<lparr>database := db'\<rparr>))"

text \<open>
  The filters of a query. \<open>filterCategory\<close> is the field \<open>category\<close> and \<open>filterLimit\<close> the
  field \<open>limit\<close> of the source; an absent field is \<open>None\<close>.
\<close>

record filters =
  filterCategory :: "jsstring option"
  dateFrom :: "jsstring option"
  dateTo :: "jsstring option"
  searchTerm :: "jsstring option"
  filterLimit :: "int option"

text \<open>The calls on the query builder after \<open>supabase.from('fmcsa_register').select('*')\<close>.\<close>

datatype queryCall =
    Eq string jsstring
  | Gte string jsstring
  | Lte string jsstring
  | Or jsstring
  | Order string bool
  | Limit int

text \<open>
  The query the filters build. A string filter applies when it is truthy (there and not
  empty), the limit when it is not zero; \<open>filters\<close> itself may be absent.
\<close>

definition buildQuery :: "filters option \<Rightarrow> queryCall list" where
  "buildQuery fs =
     (case fs of
        None \<Rightarrow> []
      | Some f \<Rightarrow>
          (case filterCategory f of
             None \<Rightarrow> []
           | Some c \<Rightarrow> if c \<noteq> [] \<and> c \<noteq> js ''all'' then [Eq ''category'' c] else []) @
          (case dateFrom f of
             None \<Rightarrow> []
           | Some d \<Rightarrow> if d \<noteq> [] then [Gte ''date_fetched'' d] else []) @
          (case dateTo f of
             None \<Rightarrow> []
           | Some d \<Rightarrow> if d \<noteq> [] then [Lte ''date_fetched'' d] else []) @
          (case searchTerm f of
             None \<Rightarrow> []
           | Some t \<Rightarrow>
               if t \<noteq> []
               then [Or (js ''number.ilike.%'' @ t @ js ''%,title.ilike.%'' @ t @ js ''%'')]
               else [])) @
     [Order ''date_fetched'' False, Order ''number'' True] @
     [case (case fs of None \<Rightarrow> None | Some f \<Rightarrow> filterLimit f) of
        None \<Rightarrow> Limit 500
      | Some n \<Rightarrow> if n \<noteq> 0 then Limit n else Limit 500]"

text \<open>
  \<open>fetchFMCSARegisterEntries(filters)\<close>. \<open>run\<close> is awaiting the query that was built.
\<close>

definition fetchFMCSARegisterEntries ::
  "(queryCall list \<Rightarrow> 'db \<Rightarrow> registerRow list supabaseReply \<times> 'db) \<Rightarrow> filters option \<Rightarrow>
   'db world \<Rightarrow> registerRow list \<times> 'db world" where
  "fetchFMCSARegisterEntries run fs w =
     (case run (buildQuery fs) (database w) of
        (Thrown err, db') \<Rightarrow>
          ([], w\<lparr>console := console w @ [ConsoleError ''Exception fetching from Supabase:'' err],
                 database := db'\<rparr>)
      | (Reply data (Some err), db') \<Rightarrow>
          ([], w\<lparr>console := console w @ [ConsoleError ''Supabase fetch error:'' err],
                 database := db'\<rparr>)
      | (Reply data None, db') \<Rightarrow>
          ((case data of None \<Rightarrow> [] | Some rows \<Rightarrow> rows), w\<lparr>database := db'\<rparr>))"

text \<open>
  Storage collaborators for concrete runs: a query that fails with an error reply, one that
  finds no rows, one that throws, an upsert that fails, and an upsert that succeeds and
  counts its calls in the storage state.
\<close>

definition failingQuery :: "queryCall list \<Rightarrow> nat \<Rightarrow> registerRow list supabaseReply \<times> nat" where
  "failingQuery q db = (Reply None (Some (JsError ''connection refused'')), db)"

definition emptyQuery :: "queryCall list \<Rightarrow> nat \<Rightarrow> registerRow list supabaseReply \<times> nat" where
  "emptyQuery q db = (Reply (Some []) None, db)"

definition throwingQuery :: "queryCall list \<Rightarrow> nat \<Rightarrow> registerRow list supabaseReply \<times> nat" where
  "throwingQuery q db = (Thrown (JsError ''fetch failed''), db)"

definition failingUpsert :: "registerRow list \<Rightarrow> nat \<Rightarrow> unit supabaseReply \<times> nat" where
  "failingUpsert records db = (Reply None (Some (JsError ''permission denied'')), Suc db)"

definition countingUpsert :: "registerRow list \<Rightarrow> nat \<Rightarrow> unit supabaseReply \<times> nat" where
  "countingUpsert records db = (Reply None None, Suc db)"

definition quietWorld :: "nat world" where
  "quietWorld = \<lparr>console = [], database = 0\<rparr>"

definition sampleRow :: registerRow where
  "sampleRow =
     \<lparr>number = js ''MC-1'', title = js ''AAA'', decided = js ''01/01/2020'',
      category = js ''TRANSFERS'', date_fetched = js ''2026-02-20'', row_id = None,
      created_at = None, updated_at = None\<rparr>"

text \<open>
  For concrete runs of the handlers: the text cheerio gives for markup without tags or
  character references is the markup itself.
\<close>

definition plainText :: "jsstring \<Rightarrow> jsstring" where
  "plainText data = data"

section \<open>The notions of the specification\<close>

text \<open>
  The identity of a record within one extraction run: its docket number and its title.
\<close>

definition entryKey :: "entry \<Rightarrow> jsstring \<times> jsstring" where
  "entryKey e = (number e, title e)"



text \<open>The entry the scan builds from a match.\<close>

definition entryOf :: "(jsstring \<Rightarrow> jsstring) \<Rightarrow> jsstring \<Rightarrow> execResult \<Rightarrow> entry" where
  "entryOf up rawText m =
     \<lparr>number = matchGroup m 1,
      title = trim (collapseSpaces (matchGroup m 2)),
      decided = matchGroup m 3,
      category = detectCategory (contextText up rawText (index m))\<rparr>"

text \<open>
  A string is tidy when every white-space character in it is a single space that no
  white-space character follows.
\<close>

fun tidy :: "jsstring \<Rightarrow> bool" where
  "tidy [] = True"
| "tidy [c] = (isWhiteSpace c \<longrightarrow> c = 32)"
| "tidy (c # d # cs) = ((isWhiteSpace c \<longrightarrow> c = 32 \<and> \<not> isWhiteSpace d) \<and> tidy (d # cs))"

section \<open>Normalization\<close>

lemma isWhiteSpace_32: "isWhiteSpace 32"
  by (simp add: isWhiteSpace_def)

lemma collapseSpaces_head:
  "collapseSpaces (dropWhile isWhiteSpace cs) = d # ds \<Longrightarrow> \<not> isWhiteSpace d"
proof (cases "dropWhile isWhiteSpace cs")
  case Nil
  then show "collapseSpaces (dropWhile isWhiteSpace cs) = d # ds \<Longrightarrow> \<not> isWhiteSpace d" by simp
next
  case (Cons x xs)
  then have "\<not> isWhiteSpace x" by (metis hd_dropWhile list.sel(1) list.distinct(1))
  with Cons show "collapseSpaces (dropWhile isWhiteSpace cs) = d # ds \<Longrightarrow> \<not> isWhiteSpace d"
    by auto
qed

lemma tidy_Cons: "tidy (c # cs) \<longleftrightarrow>
   (isWhiteSpace c \<longrightarrow> c = 32 \<and> (case cs of [] \<Rightarrow> True | d # _ \<Rightarrow> \<not> isWhiteSpace d)) \<and> tidy cs"
  by (cases cs) auto

lemma tidy_collapseSpaces: "tidy (collapseSpaces s)"
proof (induction s rule: collapseSpaces.induct)
  case 1
  then show ?case by simp
next
  case (2 c cs)
  show ?case
  proof (cases "isWhiteSpace c")
    case True
    with 2 have t: "tidy (collapseSpaces (dropWhile isWhiteSpace cs))" by simp
    show ?thesis using True t collapseSpaces_head[of cs]
      by (auto simp: tidy_Cons split: list.splits)
  next
    case False
    with 2 show ?thesis by (simp add: tidy_Cons)
  qed
qed

lemma collapseSpaces_tidy: "tidy s \<Longrightarrow> collapseSpaces s = s"
proof (induction s rule: tidy.induct)
  case (3 c d cs)
  then show ?case by auto
qed auto

lemma replaceNbsp_tidy: "tidy s \<Longrightarrow> replaceNbsp s = s"
  by (induction s rule: tidy.induct) (auto simp: replaceNbsp_def isWhiteSpace_def)

lemma tidy_append: "tidy (a @ b) \<Longrightarrow> tidy a \<and> tidy b"
proof (induction a rule: tidy.induct)
  case 1
  then show ?case by simp
next
  case (2 c)
  then show ?case by (cases b) auto
next
  case (3 c d cs)
  then show ?case by auto
qed

lemma tidy_trim: assumes "tidy s" shows "tidy (trim s)"
proof -
  let ?a = "dropWhile isWhiteSpace s"
  have "s = takeWhile isWhiteSpace s @ ?a" by simp
  with assms have a: "tidy ?a" by (metis tidy_append)
  have "rev ?a = takeWhile isWhiteSpace (rev ?a) @ dropWhile isWhiteSpace (rev ?a)" by simp
  then have "?a = rev (dropWhile isWhiteSpace (rev ?a)) @ rev (takeWhile isWhiteSpace (rev ?a))"
    by (metis rev_append rev_rev_ident)
  with a show ?thesis unfolding trim_def by (metis tidy_append)
qed

lemma trim_trim: "trim (trim s) = trim s"
proof (cases "dropWhile isWhiteSpace s")
  case Nil
  have "trim s = []" unfolding trim_def Nil by simp
  moreover have "trim [] = []" by (simp add: trim_def)
  ultimately show ?thesis by simp
next
  case (Cons x xs)
  then have nx: "\<not> isWhiteSpace x" by (metis hd_dropWhile list.sel(1) list.distinct(1))
  then have t: "trim s = x # rev (dropWhile isWhiteSpace (rev xs))"
    using Cons by (simp add: trim_def dropWhile_append3)
  have "trim (x # ys) = x # rev (dropWhile isWhiteSpace (rev ys))" for ys
    using nx by (simp add: trim_def dropWhile_append3)
  with t show ?thesis by simp
qed

section \<open>Deduplication\<close>

lemma findIndexFrom_shift: "0 \<le> i \<Longrightarrow> findIndexFrom p xs i =
   (if \<exists>x\<in>set xs. p x then i + int (length (takeWhile (\<lambda>x. \<not> p x) xs)) else - 1)"
  by (induction xs arbitrary: i) auto

lemma findIndex_eq: "findIndex p xs =
   (if \<exists>x\<in>set xs. p x then int (length (takeWhile (\<lambda>x. \<not> p x) xs)) else - 1)"
  by (simp add: findIndex_def findIndexFrom_shift)

lemma takeWhile_first:
  assumes "i < length xs"
  shows "length (takeWhile (\<lambda>x. \<not> P x) xs) = i \<longleftrightarrow> P (xs ! i) \<and> (\<forall>j<i. \<not> P (xs ! j))"
  using assms
proof (induction xs arbitrary: i)
  case Nil
  then show ?case by simp
next
  case (Cons x xs)
  show ?case
  proof (cases i)
    case 0
    then show ?thesis by auto
  next
    case (Suc k)
    with Cons.prems have k: "k < length xs" by simp
    show ?thesis
    proof (cases "P x")
      case True
      then show ?thesis using Suc by auto
    next
      case False
      have "(\<forall>j<Suc k. \<not> P ((x # xs) ! j)) \<longleftrightarrow> (\<forall>j<k. \<not> P (xs ! j))"
        using False by (auto simp: less_Suc_eq_0_disj)
      with False Suc Cons.IH[OF k] show ?thesis by simp
    qed
  qed
qed

lemma filterIndexed_nth: "filterIndexed f xs = map (\<lambda>i. xs ! i) (filter (\<lambda>i. f (xs ! i) (int i) xs) [0 ..< length xs])"
proof -
  have z: "zip xs (map int [0 ..< length xs]) = map (\<lambda>i. (xs ! i, int i)) [0 ..< length xs]"
    by (rule nth_equalityI) simp_all
  show ?thesis unfolding filterIndexed_def z by (simp add: filter_map comp_def)
qed

lemma same_key: "(number e = number x \<and> title e = title x) \<longleftrightarrow> entryKey e = entryKey x"
  by (auto simp: entryKey_def)

lemma uniqueEntries_nth:
  "uniqueEntries es =
     map (\<lambda>i. es ! i)
       (filter (\<lambda>i. \<forall>j<i. entryKey (es ! j) \<noteq> entryKey (es ! i)) [0 ..< length es])"
proof -
  have "(int i = findIndex (\<lambda>e. number e = number (es ! i) \<and> title e = title (es ! i)) es)
        \<longleftrightarrow> (\<forall>j<i. entryKey (es ! j) \<noteq> entryKey (es ! i))" if i: "i < length es" for i
  proof -
    have ex: "\<exists>x\<in>set es. entryKey x = entryKey (es ! i)" using i by auto
    have "int i = findIndex (\<lambda>e. entryKey e = entryKey (es ! i)) es
          \<longleftrightarrow> length (takeWhile (\<lambda>x. \<not> entryKey x = entryKey (es ! i)) es) = i"
      using ex by (auto simp: findIndex_eq)
    also have "\<dots> \<longleftrightarrow> (\<forall>j<i. entryKey (es ! j) \<noteq> entryKey (es ! i))"
      using takeWhile_first[OF i, of "\<lambda>x. entryKey x = entryKey (es ! i)"] by simp
    finally show ?thesis by (simp add: same_key)
  qed
  then have "filter (\<lambda>i. int i = findIndex (\<lambda>e. number e = number (es ! i) \<and> title e = title (es ! i)) es) [0 ..< length es]
     = filter (\<lambda>i. \<forall>j<i. entryKey (es ! j) \<noteq> entryKey (es ! i)) [0 ..< length es]"
    by (intro filter_cong) simp_all
  then show ?thesis unfolding uniqueEntries_def filterIndexed_nth by simp
qed

lemma filterIndexed_subseq: "subseq (filterIndexed f xs) xs"
proof -
  let ?zs = "zip xs (map int [0 ..< length xs])"
  have "subseq (map fst (filter (\<lambda>(x, i). f x i xs) ?zs)) (map fst ?zs)"
    by (intro subseq_map subseq_filter_left)
  moreover have "map fst ?zs = xs" by simp
  ultimately show ?thesis by (simp add: filterIndexed_def)
qed

lemma uniqueEntries_distinct: "distinct (map entryKey (uniqueEntries es))"
proof -
  let ?keep = "\<lambda>i. \<forall>j<i. entryKey (es ! j) \<noteq> entryKey (es ! i)"
  let ?is = "filter ?keep [0 ..< length es]"
  have "inj_on (\<lambda>i. entryKey (es ! i)) (set ?is)"
  proof (rule inj_onI)
    fix a b assume a: "a \<in> set ?is" and b: "b \<in> set ?is"
      and eq: "entryKey (es ! a) = entryKey (es ! b)"
    from a b have ka: "?keep a" and kb: "?keep b" by simp_all
    show "a = b"
    proof (rule ccontr)
      assume "a \<noteq> b"
      then consider "a < b" | "b < a" by (meson nat_neq_iff)
      then show False
      proof cases
        case 1
        with kb eq show False by auto
      next
        case 2
        with ka eq show False by auto
      qed
    qed
  qed
  then have "distinct (map (\<lambda>i. entryKey (es ! i)) ?is)"
    by (simp add: distinct_map)
  then show ?thesis by (simp add: uniqueEntries_nth comp_def)
qed

lemma uniqueEntries_keys: "entryKey ` set (uniqueEntries es) = entryKey ` set es"
proof
  have "set (filterIndexed f es) \<subseteq> set es" for f
    by (auto simp: filterIndexed_def dest: set_zip_leftD)
  then show "entryKey ` set (uniqueEntries es) \<subseteq> entryKey ` set es"
    unfolding uniqueEntries_def by (rule image_mono)
next
  show "entryKey ` set es \<subseteq> entryKey ` set (uniqueEntries es)"
  proof
    fix k assume "k \<in> entryKey ` set es"
    then obtain i where i: "i < length es" "entryKey (es ! i) = k"
      by (auto simp: in_set_conv_nth)
    define j where "j = (LEAST j. j < length es \<and> entryKey (es ! j) = k)"
    have j: "j < length es \<and> entryKey (es ! j) = k"
      unfolding j_def using i by (intro LeastI[of "\<lambda>j. j < length es \<and> entryKey (es ! j) = k" i]) simp
    have "\<forall>l<j. entryKey (es ! l) \<noteq> entryKey (es ! j)"
    proof (intro allI impI)
      fix l assume l: "l < j"
      then have "\<not> (l < length es \<and> entryKey (es ! l) = k)"
        unfolding j_def by (rule not_less_Least)
      with l j show "entryKey (es ! l) \<noteq> entryKey (es ! j)" by simp
    qed
    with j have "es ! j \<in> set (uniqueEntries es)"
      by (simp add: uniqueEntries_nth)
    with j show "k \<in> entryKey ` set (uniqueEntries es)" by force
  qed
qed

section \<open>Classification and the scan\<close>

lemma includes_js_sublist: "includes_js s k \<longleftrightarrow> sublist k s"
  by (induction s) (auto simp: sublist_Cons_right)






lemma scanLoop_entries:
  "e \<in> set (scanLoop up rawText i es) \<Longrightarrow>
     e \<in> set es \<or>
     (\<exists>m j. exec rawText j = Some m \<and> e = entryOf up rawText m \<and> length (title e) \<le> 500)"
proof (induction up rawText i es rule: scanLoop.induct)
  case (1 up rawText i es)
  show ?case
  proof (cases "exec rawText i")
    case None
    with "1.prems" show ?thesis by (simp add: scanLoop.simps)
  next
    case (Some m)
    show ?thesis
    proof (cases "500 < length (trim (collapseSpaces (matchGroup m 2)))")
      case True
      with Some "1.prems" have "e \<in> set (scanLoop up rawText (nextIndex m) es)"
        by (simp add: scanLoop.simps)
      from "1.IH"(1)[OF Some True this] show ?thesis .
    next
      case False
      with Some "1.prems" have "e \<in> set (scanLoop up rawText (nextIndex m) (es @ [entryOf up rawText m]))"
        by (simp add: scanLoop.simps entryOf_def)
      from "1.IH"(2)[OF Some False this[unfolded entryOf_def]]
      show ?thesis using Some False by (auto simp: entryOf_def)
    qed
  qed
qed

lemma scanLoop_done: "exec rawText i = None \<Longrightarrow> scanLoop up rawText i es = es"
  by (subst scanLoop.simps) simp

lemma scanLoop_skip:
  "exec rawText i = Some m \<Longrightarrow> 500 < length (trim (collapseSpaces (matchGroup m 2))) \<Longrightarrow>
     scanLoop up rawText i es = scanLoop up rawText (nextIndex m) es"
  by (subst scanLoop.simps) simp

lemma scanLoop_push:
  "exec rawText i = Some m \<Longrightarrow> \<not> 500 < length (trim (collapseSpaces (matchGroup m 2))) \<Longrightarrow>
     scanLoop up rawText i es = scanLoop up rawText (nextIndex m) (es @ [entryOf up rawText m])"
  by (subst scanLoop.simps) (simp add: entryOf_def)

lemma uniqueEntries_subset: "set (uniqueEntries es) \<subseteq> set es"
  unfolding uniqueEntries_def by (auto simp: filterIndexed_def dest: set_zip_leftD)

lemma extractEntries_entries:
  assumes "e \<in> set (extractEntries up rawText)"
  shows "\<exists>m j. exec rawText j = Some m \<and> e = entryOf up rawText m \<and> length (title e) \<le> 500"
proof -
  from assms have "e \<in> set (scanLoop up rawText 0 [])"
    using uniqueEntries_subset by (auto simp: extractEntries_def)
  from scanLoop_entries[OF this] show ?thesis by simp
qed

lemmas match_defs =
  exec_def js_def pattern_def docketToken_def dateToken_def isDigit_def isWhiteSpace_def

section \<open>Matching a docket, a body without white space and a date\<close>

lemma paths_lazy_group:
  "paths (Seq (Group i (LazyStar (\<lambda>c. True))) r) (s, c) =
     concat (map (\<lambda>k. paths r (drop k s, (i, take k s) # c)) [0 ..< Suc (length s)])"
proof -
  have tw: "takeWhile (\<lambda>c. True) s = s" by (induction s) auto
  have "paths (Group i (LazyStar (\<lambda>c. True))) (s, c) =
      map (\<lambda>k. (drop k s, (i, take (length s - length (drop k s)) s) # c)) [0 ..< Suc (length s)]"
    by (simp add: tw comp_def del: upt_Suc)
  also have "\<dots> = map (\<lambda>k. (drop k s, (i, take k s) # c)) [0 ..< Suc (length s)]"
    by (rule map_cong) auto
  finally show ?thesis by (simp add: comp_def del: upt_Suc paths.simps(7))
qed

lemma paths_no_space:
  "\<not> isWhiteSpace x \<Longrightarrow> paths (Seq (Plus isWhiteSpace) r) (x # xs, c) = []"
  by simp

lemma paths_body_short:
  assumes "list_all (\<lambda>c. \<not> isWhiteSpace c) B"
  shows "concat (map (\<lambda>k. paths (Seq (Plus isWhiteSpace) r) (drop k (B @ rest), (i, take k (B @ rest)) # c))
           [0 ..< length B]) = []"
proof -
  have "paths (Seq (Plus isWhiteSpace) r) (drop k (B @ rest), (i, take k (B @ rest)) # c) = []"
    if k: "k < length B" for k
  proof -
    have d: "drop k (B @ rest) = B ! k # (drop (Suc k) B @ rest)"
      using k by (simp add: Cons_nth_drop_Suc)
    have "\<not> isWhiteSpace (B ! k)"
      using assms k by (simp add: list_all_length)
    then show ?thesis unfolding d by (rule paths_no_space)

  qed
  then show ?thesis by simp
qed

lemma docket_MC1:
  "paths (Seq (Group 1 docketToken) r) (77 # 67 # 45 # 49 # 32 # xs, []) =
     paths r (32 # xs, [(1, js ''MC-1'')])"
  by (simp add: docketToken_def js_def isDigit_def)

lemma spaces_one:
  "\<not> isWhiteSpace x \<Longrightarrow>
     paths (Seq (Plus isWhiteSpace) r) (32 # x # xs, c) = paths r (x # xs, c)"
  by (simp add: isWhiteSpace_32)

lemma date_tail:
  "concat (map (\<lambda>j. paths (Seq (Plus isWhiteSpace) (Group 3 dateToken))
                   (drop j (js '' 01/01/2020''), (2, B @ take j (js '' 01/01/2020'')) # c))
           [0 ..< 12]) =
     [([], (3, js ''01/01/2020'') # (2, B) # c)]"
  by (simp add: js_def dateToken_def isDigit_def isWhiteSpace_def upt_rec)

lemma paths_body:
  assumes ne: "B \<noteq> []" and nws: "list_all (\<lambda>c. \<not> isWhiteSpace c) B"
  shows "paths pattern (js ''MC-1 '' @ B @ js '' 01/01/2020'', []) =
           [([], [(3, js ''01/01/2020''), (2, B), (1, js ''MC-1'')])]"
proof -
  let ?tail = "js '' 01/01/2020''"
  let ?r = "Seq (Plus isWhiteSpace) (Group 3 dateToken)"
  let ?c = "[(1, js ''MC-1'')]"
  from ne obtain x xs where B: "B = x # xs" by (cases B) auto
  with nws have x: "\<not> isWhiteSpace x" by simp
  have len: "length ?tail = 11" by (simp add: js_def)
  have "js ''MC-1 '' @ B @ ?tail = 77 # 67 # 45 # 49 # 32 # x # (xs @ ?tail)"
    by (simp add: js_def B)
  then have "paths pattern (js ''MC-1 '' @ B @ ?tail, []) =
      paths (Seq (Group 2 (LazyStar (\<lambda>c. True))) ?r) (x # (xs @ ?tail), ?c)"
    unfolding pattern_def by (simp only: docket_MC1 spaces_one[OF x])
  also have "x # (xs @ ?tail) = B @ ?tail" by (simp add: B)
  also have "paths (Seq (Group 2 (LazyStar (\<lambda>c. True))) ?r) (B @ ?tail, ?c) =
      concat (map (\<lambda>k. paths ?r (drop k (B @ ?tail), (2, take k (B @ ?tail)) # ?c))
                [0 ..< Suc (length (B @ ?tail))])"
    by (rule paths_lazy_group)
  also have "[0 ..< Suc (length (B @ ?tail))] = [0 ..< length B] @ map (\<lambda>j. length B + j) [0 ..< 12]"
  proof -
    have "Suc (length (B @ ?tail)) = length B + 12" by (simp add: len)
    then have "[0 ..< Suc (length (B @ ?tail))] = [0 ..< length B + 12]" by (simp only:)
    also have "\<dots> = [0 ..< length B] @ [length B ..< length B + 12]"
      by (rule upt_add_eq_append) simp
    also have "[length B ..< length B + 12] = map (\<lambda>j. length B + j) [0 ..< 12]"
      using map_add_upt[of "length B" 12] by (simp only: add.commute)
    finally show ?thesis .
  qed
  also have "concat (map (\<lambda>k. paths ?r (drop k (B @ ?tail), (2, take k (B @ ?tail)) # ?c))
                ([0 ..< length B] @ map (\<lambda>j. length B + j) [0 ..< 12])) =
      concat (map (\<lambda>j. paths ?r (drop j ?tail, (2, B @ take j ?tail) # ?c)) [0 ..< 12])"
  proof -
    define f where "f = (\<lambda>k. paths ?r (drop k (B @ ?tail), (2, take k (B @ ?tail)) # ?c))"
    have f1: "concat (map f [0 ..< length B]) = []"
      unfolding f_def by (rule paths_body_short[OF nws])
    have f2: "f (length B + j) = paths ?r (drop j ?tail, (2, B @ take j ?tail) # ?c)" for j
      unfolding f_def by (simp del: paths.simps)
    have "concat (map f ([0 ..< length B] @ map (\<lambda>j. length B + j) [0 ..< 12])) =
        concat (map f [0 ..< length B]) @ concat (map (\<lambda>j. f (length B + j)) [0 ..< 12])"
      by (simp only: map_append concat_append map_map comp_def)
    then show ?thesis unfolding f1 f2 unfolding f_def by simp
  qed
  also have "\<dots> = [([], (3, js ''01/01/2020'') # (2, B) # ?c)]"
    by (rule date_tail)
  finally show ?thesis by simp
qed

lemma dropWhile_none: "\<forall>x\<in>set xs. \<not> P x \<Longrightarrow> dropWhile P xs = xs"
  by (cases xs) auto

lemma trim_no_space: "list_all (\<lambda>c. \<not> isWhiteSpace c) B \<Longrightarrow> trim B = B"
  by (simp add: trim_def list_all_iff dropWhile_none)

lemma collapseSpaces_no_space: "list_all (\<lambda>c. \<not> isWhiteSpace c) B \<Longrightarrow> collapseSpaces B = B"
  by (induction B) auto

lemma exec_body:
  assumes "B \<noteq> []" and "list_all (\<lambda>c. \<not> isWhiteSpace c) B"
  shows "exec (js ''MC-1 '' @ B @ js '' 01/01/2020'') 0 =
           Some \<lparr>index = 0, groups = [(3, js ''01/01/2020''), (2, B), (1, js ''MC-1'')],
                 nextIndex = length B + 16\<rparr>"
proof -
  have "length (js ''MC-1 '' @ B @ js '' 01/01/2020'') = length B + 16"
    by (simp add: js_def)
  then show ?thesis
    using paths_body[OF assms] by (simp add: exec_def del: paths.simps)
qed

lemma exec_end: "exec rawText (length rawText) = None"
  by (simp add: match_defs)

lemma scan_body:
  assumes "B \<noteq> []" and "list_all (\<lambda>c. \<not> isWhiteSpace c) B"
  shows "scanLoop up (js ''MC-1 '' @ B @ js '' 01/01/2020'') 0 [] =
           (if 500 < length B then []
            else [entryOf up (js ''MC-1 '' @ B @ js '' 01/01/2020'')
                    \<lparr>index = 0, groups = [(3, js ''01/01/2020''), (2, B), (1, js ''MC-1'')],
                      nextIndex = length B + 16\<rparr>])"
proof -
  let ?t = "js ''MC-1 '' @ B @ js '' 01/01/2020''"
  let ?m = "\<lparr>index = 0, groups = [(3, js ''01/01/2020''), (2, B), (1, js ''MC-1'')],
                      nextIndex = length B + 16\<rparr>"
  have l: "length ?t = length B + 16" by (simp add: js_def)
  have ti: "trim (collapseSpaces (matchGroup ?m 2)) = B"
    using assms(2) by (simp add: matchGroup_def trim_no_space collapseSpaces_no_space)
  have e: "exec ?t (nextIndex ?m) = None"
    using exec_end[of ?t] by (simp only: l execResult.simps)
  show ?thesis
  proof (cases "500 < length B")
    case True
    have big: "500 < length (trim (collapseSpaces (matchGroup ?m 2)))"
      unfolding ti by (rule True)
    have "scanLoop up ?t 0 [] = scanLoop up ?t (nextIndex ?m) []"
      by (rule scanLoop_skip[OF exec_body[OF assms] big])
    also have "\<dots> = []" by (rule scanLoop_done[OF e])
    finally show ?thesis using True by simp
  next
    case False
    have small: "\<not> 500 < length (trim (collapseSpaces (matchGroup ?m 2)))"
      unfolding ti by (rule False)
    have "scanLoop up ?t 0 [] = scanLoop up ?t (nextIndex ?m) ([] @ [entryOf up ?t ?m])"
      by (rule scanLoop_push[OF exec_body[OF assms] small])
    also have "\<dots> = [] @ [entryOf up ?t ?m]" by (rule scanLoop_done[OF e])
    finally show ?thesis using False by simp
  qed
qed

lemma uniqueEntries_Nil: "uniqueEntries [] = []"
  by (simp add: uniqueEntries_def filterIndexed_def)

lemma uniqueEntries_single: "uniqueEntries [e] = [e]"
  by (simp add: uniqueEntries_def filterIndexed_def findIndex_def)

lemma detectCategory_none:
  assumes "\<forall>k\<in>set (concat (map snd categoryKeywords)). \<not> includes_js w k"
  shows "detectCategory w = js ''MISCELLANEOUS''"
  using assms by (simp add: detectCategory_def categoryKeywords_def)

lemma exec_A:
  "exec (js ''MC-123456 Acme Trucking Co 01/15/2024'') 0 =
     Some \<lparr>index = 0,
           groups = [(3, js ''01/15/2024''), (2, js ''Acme Trucking Co''), (1, js ''MC-123456'')],
           nextIndex = 37\<rparr>"
  by (simp add: match_defs)

lemma exec_A_end: "exec (js ''MC-123456 Acme Trucking Co 01/15/2024'') 37 = None"
  by (simp add: match_defs)

lemma title_A: "trim (collapseSpaces (js ''Acme Trucking Co'')) = js ''Acme Trucking Co''"
  by (simp add: trim_def js_def isWhiteSpace_def)

lemma scan_A:
  "scanLoop up (js ''MC-123456 Acme Trucking Co 01/15/2024'') 0 [] =
     [\<lparr>number = js ''MC-123456'', title = js ''Acme Trucking Co'', decided = js ''01/15/2024'',
       category = detectCategory (contextText up (js ''MC-123456 Acme Trucking Co 01/15/2024'') 0)\<rparr>]"
proof -
  let ?t = "js ''MC-123456 Acme Trucking Co 01/15/2024''"
  let ?m = "\<lparr>index = 0,
           groups = [(3, js ''01/15/2024''), (2, js ''Acme Trucking Co''), (1, js ''MC-123456'')],
           nextIndex = 37\<rparr>"
  have g: "matchGroup ?m 1 = js ''MC-123456''" "matchGroup ?m 2 = js ''Acme Trucking Co''"
    "matchGroup ?m 3 = js ''01/15/2024''"
    by (simp_all add: matchGroup_def)
  have small: "\<not> 500 < length (trim (collapseSpaces (matchGroup ?m 2)))"
    unfolding g title_A by (simp add: js_def)
  have e: "exec ?t (nextIndex ?m) = None" using exec_A_end by simp
  have "scanLoop up ?t 0 [] = scanLoop up ?t (nextIndex ?m) ([] @ [entryOf up ?t ?m])"
    by (rule scanLoop_push[OF exec_A small])
  also have "\<dots> = [] @ [entryOf up ?t ?m]" by (rule scanLoop_done[OF e])
  finally show ?thesis unfolding entryOf_def g title_A by simp
qed

lemma exec_F1:
  "exec (js ''MC-1 AAA 01/01/2020 MC-2 BBB 02/02/2020'') 0 =
     Some \<lparr>index = 0, groups = [(3, js ''01/01/2020''), (2, js ''AAA''), (1, js ''MC-1'')],
           nextIndex = 19\<rparr>"
  by (simp add: match_defs)

lemma exec_F2:
  "exec (js ''MC-1 AAA 01/01/2020 MC-2 BBB 02/02/2020'') 19 =
     Some \<lparr>index = 20, groups = [(3, js ''02/02/2020''), (2, js ''BBB''), (1, js ''MC-2'')],
           nextIndex = 39\<rparr>"
  by (simp add: match_defs)

lemma exec_F3: "exec (js ''MC-1 AAA 01/01/2020 MC-2 BBB 02/02/2020'') 39 = None"
  by (simp add: match_defs)

lemma scan_F:
  "scanLoop up (js ''MC-1 AAA 01/01/2020 MC-2 BBB 02/02/2020'') 0 [] =
     [\<lparr>number = js ''MC-1'', title = js ''AAA'', decided = js ''01/01/2020'',
       category = detectCategory (contextText up (js ''MC-1 AAA 01/01/2020 MC-2 BBB 02/02/2020'') 0)\<rparr>,
      \<lparr>number = js ''MC-2'', title = js ''BBB'', decided = js ''02/02/2020'',
       category = detectCategory (contextText up (js ''MC-1 AAA 01/01/2020 MC-2 BBB 02/02/2020'') 20)\<rparr>]"
proof -
  let ?t = "js ''MC-1 AAA 01/01/2020 MC-2 BBB 02/02/2020''"
  let ?m1 = "\<lparr>index = 0, groups = [(3, js ''01/01/2020''), (2, js ''AAA''), (1, js ''MC-1'')],
           nextIndex = 19\<rparr>"
  let ?m2 = "\<lparr>index = 20, groups = [(3, js ''02/02/2020''), (2, js ''BBB''), (1, js ''MC-2'')],
           nextIndex = 39\<rparr>"
  have g1: "matchGroup ?m1 1 = js ''MC-1''" "matchGroup ?m1 2 = js ''AAA''"
    "matchGroup ?m1 3 = js ''01/01/2020''"
    by (simp_all add: matchGroup_def)
  have g2: "matchGroup ?m2 1 = js ''MC-2''" "matchGroup ?m2 2 = js ''BBB''"
    "matchGroup ?m2 3 = js ''02/02/2020''"
    by (simp_all add: matchGroup_def)
  have t: "trim (collapseSpaces (js ''AAA'')) = js ''AAA''"
    "trim (collapseSpaces (js ''BBB'')) = js ''BBB''"
    by (simp_all add: trim_def js_def isWhiteSpace_def)
  have s1: "\<not> 500 < length (trim (collapseSpaces (matchGroup ?m1 2)))"
    unfolding g1 t by (simp add: js_def)
  have s2: "\<not> 500 < length (trim (collapseSpaces (matchGroup ?m2 2)))"
    unfolding g2 t by (simp add: js_def)
  have e2: "exec ?t (nextIndex ?m1) = Some ?m2" using exec_F2 by simp
  have e3: "exec ?t (nextIndex ?m2) = None" using exec_F3 by simp
  have "scanLoop up ?t 0 [] = scanLoop up ?t (nextIndex ?m1) ([] @ [entryOf up ?t ?m1])"
    by (rule scanLoop_push[OF exec_F1 s1])
  also have "\<dots> = scanLoop up ?t (nextIndex ?m2) (([] @ [entryOf up ?t ?m1]) @ [entryOf up ?t ?m2])"
    by (rule scanLoop_push[OF e2 s2])
  also have "\<dots> = ([] @ [entryOf up ?t ?m1]) @ [entryOf up ?t ?m2]"
    by (rule scanLoop_done[OF e3])
  finally show ?thesis unfolding entryOf_def g1 g2 t by simp
qed

lemma uniqueEntries_two:
  "number a \<noteq> number b \<Longrightarrow> uniqueEntries [a, b] = [a, b]"
  by (simp add: uniqueEntries_def filterIndexed_def findIndex_def)

lemma plus_digits:
  assumes "isDigit d"
  shows "paths (Plus isDigit) (d # rest, c) =
           map (\<lambda>k. (drop k rest, c)) (rev [0 ..< Suc (length (takeWhile isDigit rest))])"
proof -
  have "rev [1 ..< Suc (Suc (length (takeWhile isDigit rest)))] =
        map Suc (rev [0 ..< Suc (length (takeWhile isDigit rest))])"
    by (simp only: rev_map[symmetric] map_Suc_upt One_nat_def)
  then show ?thesis using assms by (simp add: comp_def del: upt_Suc)
qed

lemma plus_fail: "\<not> cls x \<Longrightarrow> paths (Plus cls) (x # xs, c) = []"
  by simp

lemma docket_MXMC_paths:
  assumes "isDigit d"
  shows "paths (Group 1 docketToken) (js ''MX-MC-'' @ d # rest, c) =
           map (\<lambda>k. (drop k rest, (1, js ''MX-MC-'' @ d # take k rest) # c))
               (rev [0 ..< Suc (length (takeWhile isDigit rest))])"
proof -
  have s: "js ''MX-MC-'' @ d # rest = 77 # 88 # 45 # 77 # 67 # 45 # d # rest"
    by (simp add: js_def)
  have nd: "\<not> isDigit 77" by (simp add: isDigit_def)
  have "paths docketToken (77 # 88 # 45 # 77 # 67 # 45 # d # rest, c) =
          paths (Plus isDigit) (d # rest, c)"
    using nd by (simp add: docketToken_def js_def plus_fail del: paths.simps(4))
  then have p: "paths docketToken (js ''MX-MC-'' @ d # rest, c) =
      map (\<lambda>k. (drop k rest, c)) (rev [0 ..< Suc (length (takeWhile isDigit rest))])"
    unfolding s plus_digits[OF assms] .
  have "map (\<lambda>k. (drop k rest, (1, take (length (js ''MX-MC-'' @ d # rest) - length (drop k rest))
                                    (js ''MX-MC-'' @ d # rest)) # c))
            (rev [0 ..< Suc (length (takeWhile isDigit rest))]) =
        map (\<lambda>k. (drop k rest, (1, js ''MX-MC-'' @ d # take k rest) # c))
            (rev [0 ..< Suc (length (takeWhile isDigit rest))])"
  proof (rule map_cong[OF refl])
    fix k assume "k \<in> set (rev [0 ..< Suc (length (takeWhile isDigit rest))])"
    then have "k \<le> length (takeWhile isDigit rest)" by auto
    also have "\<dots> \<le> length rest" by (rule length_takeWhile_le)
    finally have k: "k \<le> length rest" .
    then have e: "length (js ''MX-MC-'' @ d # rest) - length (drop k rest) =
        Suc (Suc (Suc (Suc (Suc (Suc (Suc k))))))"
      by (simp add: js_def)
    show "(drop k rest, (1, take (length (js ''MX-MC-'' @ d # rest) - length (drop k rest))
                                    (js ''MX-MC-'' @ d # rest)) # c) =
               (drop k rest, (1, js ''MX-MC-'' @ d # take k rest) # c)"
      unfolding e by (simp add: js_def)
  qed
  then show ?thesis
    by (simp only: paths.simps(7) p map_map comp_def prod.case)
qed

lemma title_Foo: "trim (collapseSpaces (js ''Foo Corp'')) = js ''Foo Corp''"
  by (simp add: trim_def js_def isWhiteSpace_def)

lemma scan_single:
  assumes e: "exec rawText 0 = Some \<lparr>index = i, groups = [(3, d), (2, b), (1, n)], nextIndex = length rawText\<rparr>"
    and t: "trim (collapseSpaces b) = b" and l: "length b \<le> 500"
  shows "scanLoop up rawText 0 [] =
           [\<lparr>number = n, title = b, decided = d, category = detectCategory (contextText up rawText i)\<rparr>]"
proof -
  let ?m = "\<lparr>index = i, groups = [(3, d), (2, b), (1, n)], nextIndex = length rawText\<rparr>"
  have g: "matchGroup ?m 1 = n" "matchGroup ?m 2 = b" "matchGroup ?m 3 = d"
    by (simp_all add: matchGroup_def)
  have small: "\<not> 500 < length (trim (collapseSpaces (matchGroup ?m 2)))"
    unfolding g t using l by simp
  have e': "exec rawText (nextIndex ?m) = None" using exec_end[of rawText] by simp
  have "scanLoop up rawText 0 [] = scanLoop up rawText (nextIndex ?m) ([] @ [entryOf up rawText ?m])"
    by (rule scanLoop_push[OF e small])
  also have "\<dots> = [] @ [entryOf up rawText ?m]" by (rule scanLoop_done[OF e'])
  finally show ?thesis unfolding entryOf_def g t by simp
qed

lemma exec_MC:
  "exec (js ''MC-123456 Foo Corp 01/01/2020'') 0 =
     Some \<lparr>index = 0, groups = [(3, js ''01/01/2020''), (2, js ''Foo Corp''), (1, js ''MC-123456'')],
           nextIndex = length (js ''MC-123456 Foo Corp 01/01/2020'')\<rparr>"
  by (simp add: match_defs)

lemma exec_FF:
  "exec (js ''FF-123456 Foo Corp 01/01/2020'') 0 =
     Some \<lparr>index = 0, groups = [(3, js ''01/01/2020''), (2, js ''Foo Corp''), (1, js ''FF-123456'')],
           nextIndex = length (js ''FF-123456 Foo Corp 01/01/2020'')\<rparr>"
  by (simp add: match_defs)

lemma exec_MX:
  "exec (js ''MX-123456 Foo Corp 01/01/2020'') 0 =
     Some \<lparr>index = 0, groups = [(3, js ''01/01/2020''), (2, js ''Foo Corp''), (1, js ''MX-123456'')],
           nextIndex = length (js ''MX-123456 Foo Corp 01/01/2020'')\<rparr>"
  by (simp add: match_defs)

lemma exec_MXMC:
  "exec (js ''MX-MC-123456 Foo Corp 01/01/2020'') 0 =
     Some \<lparr>index = 0, groups = [(3, js ''01/01/2020''), (2, js ''Foo Corp''), (1, js ''MX-MC-123456'')],
           nextIndex = length (js ''MX-MC-123456 Foo Corp 01/01/2020'')\<rparr>"
  by (simp add: match_defs)

lemma number_single:
  assumes "exec rawText 0 = Some \<lparr>index = 0, groups = [(3, js ''01/01/2020''), (2, js ''Foo Corp''), (1, n)],
                                  nextIndex = length rawText\<rparr>"
  shows "map number (extractEntries up rawText) = [n]"
proof -
  have "length (js ''Foo Corp'') \<le> 500" by (simp add: js_def)
  from scan_single[OF assms title_Foo this, of up] show ?thesis
    by (simp add: extractEntries_def uniqueEntries_single)
qed

lemma includes_js_map:
  "includes_js (map f s) m \<longleftrightarrow> (\<exists>w. includes_js s w \<and> map f w = m)"
proof
  assume "includes_js (map f s) m"
  then obtain ps ss where "map f s = ps @ m @ ss"
    by (auto simp: includes_js_sublist sublist_def)
  then have "\<exists>us vs. s = us @ vs \<and> ps = map f us \<and> m @ ss = map f vs"
    by (simp only: map_eq_append_conv)
  then obtain us vs where us: "s = us @ vs" and v: "m @ ss = map f vs" by blast
  from v have "map f vs = m @ ss" by (rule sym)
  then have "\<exists>b c. vs = b @ c \<and> m = map f b \<and> ss = map f c"
    by (simp only: map_eq_append_conv)
  then obtain b c where "vs = b @ c" "m = map f b" by blast
  with us have "s = us @ b @ c" "map f b = m" by simp_all
  then show "\<exists>w. includes_js s w \<and> map f w = m"
    by (auto simp: includes_js_sublist sublist_def)
next
  assume "\<exists>w. includes_js s w \<and> map f w = m"
  then obtain w ps ss where "s = ps @ w @ ss" "map f w = m"
    by (auto simp: includes_js_sublist sublist_def)
  then have "map f s = map f ps @ m @ map f ss" by simp
  then show "includes_js (map f s) m"
    unfolding includes_js_sublist sublist_def by blast
qed

lemma extractEntries_empty: "extractEntries up [] = []"
  using scanLoop_done[OF exec_end[of "[]"], of up "[]"]
  by (simp add: extractEntries_def uniqueEntries_Nil)

lemma exec_page:
  "exec (js ''Fmcsa Register MC-1 AAA 01/01/2020'') 0 =
     Some \<lparr>index = 15, groups = [(3, js ''01/01/2020''), (2, js ''AAA''), (1, js ''MC-1'')],
           nextIndex = length (js ''Fmcsa Register MC-1 AAA 01/01/2020'')\<rparr>"
  by (simp add: match_defs)

lemma extract_page:
  "extractEntries toUpperCaseASCII (js ''Fmcsa Register MC-1 AAA 01/01/2020'') =
     [\<lparr>number = js ''MC-1'', title = js ''AAA'', decided = js ''01/01/2020'',
       category = js ''MISCELLANEOUS''\<rparr>]"
proof -
  have t: "trim (collapseSpaces (js ''AAA'')) = js ''AAA''"
    by (simp add: trim_def js_def isWhiteSpace_def)
  have l: "length (js ''AAA'') \<le> 500" by (simp add: js_def)
  have c: "contextText toUpperCaseASCII (js ''Fmcsa Register MC-1 AAA 01/01/2020'') 15 =
      js ''FMCSA REGISTER ''"
    by (simp add: contextText_def substring_def toUpperCaseASCII_def js_def)
  have d: "detectCategory (js ''FMCSA REGISTER '') = js ''MISCELLANEOUS''"
    by (simp add: detectCategory_def categoryKeywords_def js_def)
  from scan_single[OF exec_page t l, of toUpperCaseASCII] show ?thesis
    by (simp add: extractEntries_def uniqueEntries_single c d)
qed

section \<open>The claims\<close>

text \<open>
  Claim C9. Text normalization is idempotent: for every input (a string, \<open>null\<close> or
  \<open>undefined\<close>), applying \<open>cleanText\<close> to the result of \<open>cleanText\<close> gives that result
  again.
\<close>

theorem cleanText_idempotent: "cleanText (Some (cleanText text)) = cleanText text"
proof (cases "text")
  case None
  then show ?thesis by (simp add: cleanText_def)
next
  case (Some t)
  show ?thesis
  proof (cases "t = []")
    case True
    with Some show ?thesis by (simp add: cleanText_def)
  next
    case False
    let ?r = "trim (collapseSpaces (replaceNbsp t))"
    have r: "cleanText text = ?r" using Some False by (simp add: cleanText_def)
    have "tidy ?r" by (rule tidy_trim) (rule tidy_collapseSpaces)
    then have "trim (collapseSpaces (replaceNbsp ?r)) = ?r"
      by (simp add: replaceNbsp_tidy collapseSpaces_tidy trim_trim)
    then show ?thesis unfolding r by (simp add: cleanText_def trim_def)
  qed
qed

text \<open>The same at a string with leading, doubled and trailing spaces.\<close>

theorem cleanText_idempotent_witness:
  "cleanText (Some (cleanText (Some (js ''  MC-1   a  '')))) = js ''MC-1 a''"
proof -
  have "cleanText (Some (js ''  MC-1   a  '')) = js ''MC-1 a''"
    by (simp add: js_def cleanText_def trim_def replaceNbsp_def isWhiteSpace_def)
  with cleanText_idempotent[of "Some (js ''  MC-1   a  '')"] show ?thesis by simp
qed

text \<open>
  Claim C3. The deduplication keeps an entry exactly when no earlier entry of the list has
  the same number and title, so the result is the list of first occurrences in their
  order: it is a subsequence of the list, every (number, title) pair of the list is still
  there, and no pair is there twice. The extraction applies it to the result of the whole
  scan, so no two entries of one extraction run share both number and title.
\<close>

theorem deduplication_keeps_first_occurrence:
  "uniqueEntries es =
     map (\<lambda>i. es ! i)
       (filter (\<lambda>i. \<forall>j<i. entryKey (es ! j) \<noteq> entryKey (es ! i)) [0 ..< length es])
   \<and> subseq (uniqueEntries es) es
   \<and> entryKey ` set (uniqueEntries es) = entryKey ` set es
   \<and> distinct (map entryKey (uniqueEntries es))
   \<and> extractEntries up rawText = uniqueEntries (scanLoop up rawText 0 [])
   \<and> distinct (map entryKey (extractEntries up rawText))"
proof -
  have "subseq (uniqueEntries es) es"
    unfolding uniqueEntries_def by (rule filterIndexed_subseq)
  moreover have "distinct (map entryKey (extractEntries up rawText))"
    unfolding extractEntries_def by (rule uniqueEntries_distinct)
  ultimately show ?thesis
    using uniqueEntries_nth[of es] uniqueEntries_keys[of es] uniqueEntries_distinct[of es]
    by (simp only: extractEntries_def simp_thms)
qed

text \<open>The same at a list of three entries, the third repeating the first pair.\<close>

theorem deduplication_keeps_first_occurrence_witness:
  "uniqueEntries
     [\<lparr>number = js ''MC-1'', title = js ''AAA'', decided = js ''01/01/2020'', category = js ''TRANSFERS''\<rparr>,
      \<lparr>number = js ''MC-2'', title = js ''AAA'', decided = js ''01/01/2020'', category = js ''TRANSFERS''\<rparr>,
      \<lparr>number = js ''MC-1'', title = js ''AAA'', decided = js ''02/02/2020'', category = js ''DISMISSAL''\<rparr>] =
     [\<lparr>number = js ''MC-1'', title = js ''AAA'', decided = js ''01/01/2020'', category = js ''TRANSFERS''\<rparr>,
      \<lparr>number = js ''MC-2'', title = js ''AAA'', decided = js ''01/01/2020'', category = js ''TRANSFERS''\<rparr>]
   \<and> distinct (map entryKey (uniqueEntries
     [\<lparr>number = js ''MC-1'', title = js ''AAA'', decided = js ''01/01/2020'', category = js ''TRANSFERS''\<rparr>,
      \<lparr>number = js ''MC-2'', title = js ''AAA'', decided = js ''01/01/2020'', category = js ''TRANSFERS''\<rparr>,
      \<lparr>number = js ''MC-1'', title = js ''AAA'', decided = js ''02/02/2020'', category = js ''DISMISSAL''\<rparr>]))"
proof -
  let ?es = "[\<lparr>number = js ''MC-1'', title = js ''AAA'', decided = js ''01/01/2020'', category = js ''TRANSFERS''\<rparr>,
      \<lparr>number = js ''MC-2'', title = js ''AAA'', decided = js ''01/01/2020'', category = js ''TRANSFERS''\<rparr>,
      \<lparr>number = js ''MC-1'', title = js ''AAA'', decided = js ''02/02/2020'', category = js ''DISMISSAL''\<rparr>]"
  have "uniqueEntries ?es =
     [\<lparr>number = js ''MC-1'', title = js ''AAA'', decided = js ''01/01/2020'', category = js ''TRANSFERS''\<rparr>,
      \<lparr>number = js ''MC-2'', title = js ''AAA'', decided = js ''01/01/2020'', category = js ''TRANSFERS''\<rparr>]"
    by (simp add: uniqueEntries_def filterIndexed_def findIndex_def js_def)
  moreover from deduplication_keeps_first_occurrence[of ?es toUpperCaseASCII "[]"]
  have "distinct (map entryKey (uniqueEntries ?es))" by blast
  ultimately show ?thesis by blast
qed



text \<open>
  Claim C4. No entry of the extraction has a title longer than 500 code units. A match
  whose cleaned body is longer is skipped: the loop goes on from the end of the match with
  the entries it had, so nothing is pushed, truncated or raised. For a docket followed by
  a body of more than 500 characters without white space and a date, the extraction is
  empty and the handler still answers with success and no entries; with a body of at most
  500 characters the title is the whole body.
\<close>

theorem oversized_title_dropped:
  "(\<forall>e\<in>set (extractEntries up rawText). length (title e) \<le> 500)
   \<and> (exec rawText i = Some m \<longrightarrow> 500 < length (trim (collapseSpaces (matchGroup m 2))) \<longrightarrow>
        scanLoop up rawText i es = scanLoop up rawText (nextIndex m) es)
   \<and> (list_all (\<lambda>c. \<not> isWhiteSpace c) B \<longrightarrow> 500 < length B \<longrightarrow>
        extractEntries up (js ''MC-1 '' @ B @ js '' 01/01/2020'') = []
        \<and> (includes_js (up data) (js ''FMCSA REGISTER'') \<longrightarrow>
             cheerioText data = js ''MC-1 '' @ B @ js '' 01/01/2020'' \<longrightarrow>
             registerRoute up cheerioText now registerDate (Inr (Text data)) =
               Json 200 (emptyBody\<lparr>success := Some True, count := Some 0, date := Some registerDate,
                                   lastUpdated := Some now, entries := Some []\<rparr>)))
   \<and> (list_all (\<lambda>c. \<not> isWhiteSpace c) B \<longrightarrow> B \<noteq> [] \<longrightarrow> length B \<le> 500 \<longrightarrow>
        map title (extractEntries up (js ''MC-1 '' @ B @ js '' 01/01/2020'')) = [B])"
proof (intro conjI impI ballI)
  fix e assume "e \<in> set (extractEntries up rawText)"
  from extractEntries_entries[OF this] show "length (title e) \<le> 500" by blast
next
  assume "exec rawText i = Some m" "500 < length (trim (collapseSpaces (matchGroup m 2)))"
  then show "scanLoop up rawText i es = scanLoop up rawText (nextIndex m) es"
    by (rule scanLoop_skip)
next
  assume B: "list_all (\<lambda>c. \<not> isWhiteSpace c) B" "500 < length B"
  then have "B \<noteq> []" by auto
  from scan_body[OF this B(1), of up] B(2)
  show x: "extractEntries up (js ''MC-1 '' @ B @ js '' 01/01/2020'') = []"
    by (simp add: extractEntries_def uniqueEntries_Nil)
  assume "includes_js (up data) (js ''FMCSA REGISTER'')"
    "cheerioText data = js ''MC-1 '' @ B @ js '' 01/01/2020''"
  with x show "registerRoute up cheerioText now registerDate (Inr (Text data)) =
               Json 200 (emptyBody\<lparr>success := Some True, count := Some 0, date := Some registerDate,
                                   lastUpdated := Some now, entries := Some []\<rparr>)"
    by (simp add: registerRoute_def)
next
  assume B: "list_all (\<lambda>c. \<not> isWhiteSpace c) B" "B \<noteq> []" "length B \<le> 500"
  from scan_body[OF B(2) B(1), of up] B(3) B(1)
  show "map title (extractEntries up (js ''MC-1 '' @ B @ js '' 01/01/2020'')) = [B]"
    by (simp add: extractEntries_def uniqueEntries_single entryOf_def matchGroup_def
        trim_no_space collapseSpaces_no_space)
qed

text \<open>The same at a body of 600 letters \<open>A\<close>, which is dropped, and one of 500, which is kept.\<close>

theorem oversized_title_dropped_witness:
  "list_all (\<lambda>c. \<not> isWhiteSpace c) (replicate 600 65) \<and> 500 < length (replicate 600 (65::nat))
   \<and> extractEntries toUpperCaseASCII (js ''MC-1 '' @ replicate 600 65 @ js '' 01/01/2020'') = []
   \<and> map title (extractEntries toUpperCaseASCII (js ''MC-1 '' @ replicate 500 65 @ js '' 01/01/2020'')) =
       [replicate 500 65]
   \<and> list_all (\<lambda>e. length (title e) \<le> 500)
        (extractEntries toUpperCaseASCII (js ''MC-1 '' @ replicate 500 65 @ js '' 01/01/2020''))"
proof -
  have n: "list_all (\<lambda>c. \<not> isWhiteSpace c) (replicate k 65)" for k
    by (simp add: list_all_iff isWhiteSpace_def)
  have a: "500 < length (replicate 600 (65::nat))" "replicate 500 (65::nat) \<noteq> []"
    "length (replicate 500 (65::nat)) \<le> 500"
    by simp_all
  from oversized_title_dropped[where up = toUpperCaseASCII and B = "replicate 600 65"] n[of 600] a(1)
  have "extractEntries toUpperCaseASCII (js ''MC-1 '' @ replicate 600 65 @ js '' 01/01/2020'') = []"
    by blast
  moreover
  from oversized_title_dropped[where up = toUpperCaseASCII and B = "replicate 500 65"
      and rawText = "js ''MC-1 '' @ replicate 500 65 @ js '' 01/01/2020''"] n[of 500] a(2,3)
  have "map title (extractEntries toUpperCaseASCII (js ''MC-1 '' @ replicate 500 65 @ js '' 01/01/2020'')) =
       [replicate 500 65]
     \<and> list_all (\<lambda>e. length (title e) \<le> 500)
        (extractEntries toUpperCaseASCII (js ''MC-1 '' @ replicate 500 65 @ js '' 01/01/2020''))"
    unfolding list_all_iff by blast
  ultimately show ?thesis using n[of 600] a(1) by blast
qed

text \<open>
  Claim C1. For the text \<open>MC-123456 Acme Trucking Co 01/15/2024\<close>, when no keyword of the
  category table occurs in the upper-cased window before the match (the match starts at
  position 0), the extraction is the one entry with number \<open>MC-123456\<close>, title
  \<open>Acme Trucking Co\<close>, decided \<open>01/15/2024\<close> and category \<open>MISCELLANEOUS\<close>.
\<close>

theorem scenario_A_single_entry:
  assumes "\<forall>k\<in>set (concat (map snd categoryKeywords)).
             \<not> includes_js (contextText up (js ''MC-123456 Acme Trucking Co 01/15/2024'') 0) k"
  shows "extractEntries up (js ''MC-123456 Acme Trucking Co 01/15/2024'') =
           [\<lparr>number = js ''MC-123456'', title = js ''Acme Trucking Co'',
             decided = js ''01/15/2024'', category = js ''MISCELLANEOUS''\<rparr>]"
  unfolding extractEntries_def scan_A detectCategory_none[OF assms]
  by (rule uniqueEntries_single)

text \<open>The same with the upper-casing of ASCII text, where the window is empty.\<close>

theorem scenario_A_single_entry_witness:
  "contextText toUpperCaseASCII (js ''MC-123456 Acme Trucking Co 01/15/2024'') 0 = []
   \<and> \<not> list_ex (includes_js []) (concat (map snd categoryKeywords))
   \<and> extractEntries toUpperCaseASCII (js ''MC-123456 Acme Trucking Co 01/15/2024'') =
       [\<lparr>number = js ''MC-123456'', title = js ''Acme Trucking Co'',
         decided = js ''01/15/2024'', category = js ''MISCELLANEOUS''\<rparr>]"
proof -
  have w: "contextText toUpperCaseASCII (js ''MC-123456 Acme Trucking Co 01/15/2024'') 0 = []"
    by (simp add: contextText_def substring_def toUpperCaseASCII_def)
  have n: "\<not> list_ex (includes_js []) (concat (map snd categoryKeywords))"
    by (simp add: categoryKeywords_def js_def)
  then have h: "\<forall>k\<in>set (concat (map snd categoryKeywords)).
      \<not> includes_js (contextText toUpperCaseASCII (js ''MC-123456 Acme Trucking Co 01/15/2024'') 0) k"
    unfolding w by (simp only: list_ex_iff bex_simps)
  from w n scenario_A_single_entry[OF h] show ?thesis by blast
qed

text \<open>
  Claim C6. For the text \<open>MC-1 AAA 01/01/2020 MC-2 BBB 02/02/2020\<close> the extraction is two
  entries in this order: number \<open>MC-1\<close>, title \<open>AAA\<close>, decided \<open>01/01/2020\<close>, then number
  \<open>MC-2\<close>, title \<open>BBB\<close>, decided \<open>02/02/2020\<close>. The lazy body of the first match ends at
  the nearest date, before the second docket.
\<close>

theorem scenario_F_two_entries:
  "map (\<lambda>e. (number e, title e, decided e))
     (extractEntries up (js ''MC-1 AAA 01/01/2020 MC-2 BBB 02/02/2020'')) =
   [(js ''MC-1'', js ''AAA'', js ''01/01/2020''), (js ''MC-2'', js ''BBB'', js ''02/02/2020'')]"
proof -
  have "js ''MC-1'' \<noteq> js ''MC-2''" by (simp add: js_def)
  then show ?thesis
    unfolding extractEntries_def scan_F by (simp add: uniqueEntries_two)
qed

text \<open>The same with the upper-casing of ASCII text, where both categories are the catch-all.\<close>

theorem scenario_F_two_entries_witness:
  "map (\<lambda>e. (number e, title e, decided e))
     (extractEntries toUpperCaseASCII (js ''MC-1 AAA 01/01/2020 MC-2 BBB 02/02/2020'')) =
   [(js ''MC-1'', js ''AAA'', js ''01/01/2020''), (js ''MC-2'', js ''BBB'', js ''02/02/2020'')]"
  by (rule scenario_F_two_entries[of toUpperCaseASCII])

text \<open>
  Claim C7. Each of the four docket prefixes is recognized: for the text
  \<open>MX-MC-123456 Foo Corp 01/01/2020\<close> the number of the entry is the whole token
  \<open>MX-MC-123456\<close>, although \<open>MX\<close> comes before \<open>MX-MC\<close> in the alternation (after \<open>MX\<close> the
  matcher finds no digit behind the hyphen and backtracks into the next alternative), and
  likewise the whole token for the prefixes \<open>MC\<close>, \<open>FF\<close> and \<open>MX\<close>. In general, where the
  text reads \<open>MX-MC-\<close> and a digit, every way the docket token matches there captures
  \<open>MX-MC-\<close>, that digit and a run of the digits that follow, the longest run first.
\<close>

theorem docket_prefixes_recognized:
  "map number (extractEntries up (js ''MX-MC-123456 Foo Corp 01/01/2020'')) = [js ''MX-MC-123456'']
   \<and> map number (extractEntries up (js ''MC-123456 Foo Corp 01/01/2020'')) = [js ''MC-123456'']
   \<and> map number (extractEntries up (js ''FF-123456 Foo Corp 01/01/2020'')) = [js ''FF-123456'']
   \<and> map number (extractEntries up (js ''MX-123456 Foo Corp 01/01/2020'')) = [js ''MX-123456'']
   \<and> (isDigit d \<longrightarrow>
        paths (Group 1 docketToken) (js ''MX-MC-'' @ d # rest, c) =
          map (\<lambda>k. (drop k rest, (1, js ''MX-MC-'' @ d # take k rest) # c))
              (rev [0 ..< Suc (length (takeWhile isDigit rest))]))"
  by (intro conjI impI number_single exec_MXMC exec_MC exec_FF exec_MX docket_MXMC_paths)

text \<open>The same with the upper-casing of ASCII text, and at the token \<open>MX-MC-12\<close>.\<close>

theorem docket_prefixes_recognized_witness:
  "map number (extractEntries toUpperCaseASCII (js ''MX-MC-123456 Foo Corp 01/01/2020'')) =
     [js ''MX-MC-123456'']
   \<and> isDigit 49
   \<and> paths (Group 1 docketToken) (js ''MX-MC-12 Foo'', []) =
       [(js '' Foo'', [(1, js ''MX-MC-12'')]), (js ''2 Foo'', [(1, js ''MX-MC-1'')])]"
proof -
  have d: "isDigit 49" by (simp add: isDigit_def)
  have t: "js ''MX-MC-12 Foo'' = js ''MX-MC-'' @ 49 # js ''2 Foo''" by (simp add: js_def)
  from docket_prefixes_recognized[where up = toUpperCaseASCII and d = 49 and rest = "js ''2 Foo''"
      and c = "[]"] d
  have "map number (extractEntries toUpperCaseASCII (js ''MX-MC-123456 Foo Corp 01/01/2020'')) =
     [js ''MX-MC-123456'']"
    and "paths (Group 1 docketToken) (js ''MX-MC-'' @ 49 # js ''2 Foo'', []) =
          map (\<lambda>k. (drop k (js ''2 Foo''), [(1, js ''MX-MC-'' @ 49 # take k (js ''2 Foo''))]))
              (rev [0 ..< Suc (length (takeWhile isDigit (js ''2 Foo'')))])"
    by blast+
  then show ?thesis unfolding t using d by (simp add: js_def isDigit_def)
qed

text \<open>
  Claim C5, as the specification states it: markup without the marker phrase is answered
  with the validation error, and markup with the phrase passes the gate and is extracted.
  The code does otherwise for a reply whose body is JSON: axios parses it, the check
  raises a TypeError, and both handlers answer with status 500 and the error of the
  \<open>catch\<close> block, for a body that contains the phrase as for one that does not.
\<close>

theorem json_reply_fails_before_the_gate:
  "includes_js (toUpperCaseASCII
       (rawMarkup (Parsed (js ''{\"t\":\"FMCSA REGISTER\"}'') ''response.data.toUpperCase is not a function'')))
     (js ''FMCSA REGISTER'')
   \<and> registerRoute toUpperCaseASCII plainText ''2026-02-20T00:00:00.000Z'' (js ''20-FEB-26'')
       (Inr (Parsed (js ''{\"t\":\"FMCSA REGISTER\"}'') ''response.data.toUpperCase is not a function'')) =
       Json 500 (emptyBody\<lparr>success := Some False,
                           error := Some ''Failed to scrape FMCSA register data'',
                           details := Some ''response.data.toUpperCase is not a function'',
                           entries := Some []\<rparr>)
   \<and> \<not> includes_js (toUpperCaseASCII
       (rawMarkup (Parsed (js ''[]'') ''response.data.toUpperCase is not a function'')))
     (js ''FMCSA REGISTER'')
   \<and> serverlessHandler toUpperCaseASCII plainText ''2026-02-20T00:00:00.000Z'' ''POST'' (js ''20-FEB-26'')
       (Inr (Parsed (js ''[]'') ''response.data.toUpperCase is not a function'')) =
       Json 500 (emptyBody\<lparr>success := Some False,
                           error := Some ''Failed to scrape FMCSA register data'',
                           details := Some ''response.data.toUpperCase is not a function'',
                           entries := Some []\<rparr>)"
  by (simp add: registerRoute_def serverlessHandler_def rawMarkup_def toUpperCaseASCII_def js_def)

text \<open>
  Claim C5, amended. When \<open>response.data\<close> is a string whose upper-casing does not contain
  \<open>FMCSA REGISTER\<close>, both handlers answer with status 400, \<open>success: false\<close>, an error
  message and an empty list of entries; when it does contain it, both go on to the
  extraction and answer with its entries. With the upper-casing of ASCII text the check
  passes exactly when the string contains the phrase in some mix of upper and lower case.
  When \<open>response.data\<close> is not a string, because axios has parsed a JSON body, both
  handlers answer with status 500, \<open>success: false\<close>, the error of the \<open>catch\<close> block and
  an empty list of entries, whatever the body contains.
\<close>

theorem marker_gate:
  "(\<not> includes_js (up data) (js ''FMCSA REGISTER'') \<longrightarrow>
      registerRoute up cheerioText now registerDate (Inr (Text data)) =
        Json 400 (emptyBody\<lparr>success := Some False,
                            error := Some ''Invalid response from FMCSA. The page might not be available for this date.'',
                            entries := Some []\<rparr>)
      \<and> serverlessHandler up cheerioText now ''POST'' registerDate (Inr (Text data)) =
        Json 400 (emptyBody\<lparr>success := Some False,
                            error := Some ''Invalid response from FMCSA'',
                            entries := Some []\<rparr>))
   \<and> (includes_js (up data) (js ''FMCSA REGISTER'') \<longrightarrow>
      registerRoute up cheerioText now registerDate (Inr (Text data)) =
        Json 200 (emptyBody\<lparr>success := Some True,
                            count := Some (length (extractEntries up (cheerioText data))),
                            date := Some registerDate,
                            lastUpdated := Some now,
                            entries := Some (extractEntries up (cheerioText data))\<rparr>)
      \<and> serverlessHandler up cheerioText now ''POST'' registerDate (Inr (Text data)) =
        Json 200 (emptyBody\<lparr>success := Some True,
                            count := Some (length (extractEntries up (cheerioText data))),
                            date := Some registerDate,
                            lastUpdated := Some now,
                            entries := Some (extractEntries up (cheerioText data))\<rparr>))
   \<and> (includes_js (toUpperCaseASCII data) (js ''FMCSA REGISTER'') \<longleftrightarrow>
        (\<exists>w. includes_js data w \<and> toUpperCaseASCII w = js ''FMCSA REGISTER''))
   \<and> registerRoute up cheerioText now registerDate (Inr (Parsed body msg)) =
        Json 500 (emptyBody\<lparr>success := Some False,
                            error := Some ''Failed to scrape FMCSA register data'',
                            details := Some msg,
                            entries := Some []\<rparr>)
   \<and> serverlessHandler up cheerioText now ''POST'' registerDate (Inr (Parsed body msg)) =
        Json 500 (emptyBody\<lparr>success := Some False,
                            error := Some ''Failed to scrape FMCSA register data'',
                            details := Some msg,
                            entries := Some []\<rparr>)"
proof (intro conjI impI)
  show "includes_js (toUpperCaseASCII data) (js ''FMCSA REGISTER'') \<longleftrightarrow>
        (\<exists>w. includes_js data w \<and> toUpperCaseASCII w = js ''FMCSA REGISTER'')"
    unfolding toUpperCaseASCII_def by (rule includes_js_map)
qed (simp_all add: registerRoute_def serverlessHandler_def)

text \<open>
  The same at a page without the phrase, at a page with the phrase in mixed case before
  one record, and at a JSON reply.
\<close>

theorem marker_gate_witness:
  "\<not> includes_js (toUpperCaseASCII (js ''<h1>Not Found</h1>'')) (js ''FMCSA REGISTER'')
   \<and> registerRoute toUpperCaseASCII plainText ''2026-02-20T00:00:00.000Z'' (js ''20-FEB-26'')
        (Inr (Text (js ''<h1>Not Found</h1>''))) =
        Json 400 (emptyBody\<lparr>success := Some False,
                            error := Some ''Invalid response from FMCSA. The page might not be available for this date.'',
                            entries := Some []\<rparr>)
   \<and> includes_js (toUpperCaseASCII (js ''Fmcsa Register MC-1 AAA 01/01/2020'')) (js ''FMCSA REGISTER'')
   \<and> serverlessHandler toUpperCaseASCII plainText ''2026-02-20T00:00:00.000Z'' ''POST'' (js ''20-FEB-26'')
        (Inr (Text (js ''Fmcsa Register MC-1 AAA 01/01/2020''))) =
        Json 200 (emptyBody\<lparr>success := Some True, count := Some 1, date := Some (js ''20-FEB-26''),
                            lastUpdated := Some ''2026-02-20T00:00:00.000Z'',
                            entries := Some [\<lparr>number = js ''MC-1'', title = js ''AAA'',
                                              decided = js ''01/01/2020'',
                                              category = js ''MISCELLANEOUS''\<rparr>]\<rparr>)
   \<and> registerRoute toUpperCaseASCII plainText ''2026-02-20T00:00:00.000Z'' (js ''20-FEB-26'')
        (Inr (Parsed (js ''[]'') ''response.data.toUpperCase is not a function'')) =
        Json 500 (emptyBody\<lparr>success := Some False,
                            error := Some ''Failed to scrape FMCSA register data'',
                            details := Some ''response.data.toUpperCase is not a function'',
                            entries := Some []\<rparr>)"
proof -
  have a: "\<not> includes_js (toUpperCaseASCII (js ''<h1>Not Found</h1>'')) (js ''FMCSA REGISTER'')"
    by (simp add: toUpperCaseASCII_def js_def)
  have b: "includes_js (toUpperCaseASCII (js ''Fmcsa Register MC-1 AAA 01/01/2020'')) (js ''FMCSA REGISTER'')"
    by (simp add: toUpperCaseASCII_def js_def)
  from a marker_gate[where up = toUpperCaseASCII and data = "js ''<h1>Not Found</h1>''"
      and cheerioText = plainText and now = "''2026-02-20T00:00:00.000Z''"
      and registerDate = "js ''20-FEB-26''" and body = "js ''[]''"
      and msg = "''response.data.toUpperCase is not a function''"]
  have one: "registerRoute toUpperCaseASCII plainText ''2026-02-20T00:00:00.000Z'' (js ''20-FEB-26'')
        (Inr (Text (js ''<h1>Not Found</h1>''))) =
        Json 400 (emptyBody\<lparr>success := Some False,
                            error := Some ''Invalid response from FMCSA. The page might not be available for this date.'',
                            entries := Some []\<rparr>)"
    and three: "registerRoute toUpperCaseASCII plainText ''2026-02-20T00:00:00.000Z'' (js ''20-FEB-26'')
        (Inr (Parsed (js ''[]'') ''response.data.toUpperCase is not a function'')) =
        Json 500 (emptyBody\<lparr>success := Some False,
                            error := Some ''Failed to scrape FMCSA register data'',
                            details := Some ''response.data.toUpperCase is not a function'',
                            entries := Some []\<rparr>)"
    by blast+
  from b marker_gate[where up = toUpperCaseASCII and data = "js ''Fmcsa Register MC-1 AAA 01/01/2020''"
      and cheerioText = plainText and now = "''2026-02-20T00:00:00.000Z''"
      and registerDate = "js ''20-FEB-26''"]
  have "serverlessHandler toUpperCaseASCII plainText ''2026-02-20T00:00:00.000Z'' ''POST'' (js ''20-FEB-26'')
        (Inr (Text (js ''Fmcsa Register MC-1 AAA 01/01/2020''))) =
        Json 200 (emptyBody\<lparr>success := Some True,
                            count := Some (length (extractEntries toUpperCaseASCII
                                      (plainText (js ''Fmcsa Register MC-1 AAA 01/01/2020'')))),
                            date := Some (js ''20-FEB-26''),
                            lastUpdated := Some ''2026-02-20T00:00:00.000Z'',
                            entries := Some (extractEntries toUpperCaseASCII
                                      (plainText (js ''Fmcsa Register MC-1 AAA 01/01/2020'')))\<rparr>)"
    by blast
  then have two: "serverlessHandler toUpperCaseASCII plainText ''2026-02-20T00:00:00.000Z'' ''POST'' (js ''20-FEB-26'')
        (Inr (Text (js ''Fmcsa Register MC-1 AAA 01/01/2020''))) =
        Json 200 (emptyBody\<lparr>success := Some True, count := Some 1, date := Some (js ''20-FEB-26''),
                            lastUpdated := Some ''2026-02-20T00:00:00.000Z'',
                            entries := Some [\<lparr>number = js ''MC-1'', title = js ''AAA'',
                                              decided = js ''01/01/2020'',
                                              category = js ''MISCELLANEOUS''\<rparr>]\<rparr>)"
    by (simp only: plainText_def extract_page list.size length_Cons length_0_conv One_nat_def)
       simp
  from a b one two three show ?thesis by blast
qed

text \<open>
  Claim C8, as the specification states it: every failure of the storage is surfaced to
  the caller, and a failing query does not return as if it had found no rows. The code
  does otherwise: a query that fails with an error reply, and one that throws, return the
  empty list, which is what a query that finds no rows returns.
\<close>

theorem failing_query_returns_no_rows:
  "fst (fetchFMCSARegisterEntries failingQuery None quietWorld) = []
   \<and> fst (fetchFMCSARegisterEntries throwingQuery None quietWorld) = []
   \<and> fst (fetchFMCSARegisterEntries emptyQuery None quietWorld) = []"
  by (simp add: fetchFMCSARegisterEntries_def failingQuery_def throwingQuery_def emptyQuery_def)

text \<open>
  Claim C8, amended. A failure of the upsert, an error reply or an exception, is surfaced
  to the caller of \<open>saveFMCSARegisterEntries\<close> as \<open>success: false\<close> with the message of the
  failure. A failure of the query in \<open>fetchFMCSARegisterEntries\<close>, an error reply or an
  exception, is not surfaced: the function passes a label and the error object to
  \<open>console.error\<close> and returns the empty list to its caller.
\<close>

theorem persistence_failures:
  "(es \<noteq> [] \<longrightarrow> upsert (prepareRecords now es fetchDate) (database w) = (r, db') \<longrightarrow>
      r = Thrown err \<or> r = Reply d (Some err) \<longrightarrow>
      fst (saveFMCSARegisterEntries upsert now (Some es) fetchDate w) =
        SaveResult False (Some (message err)) None)
   \<and> (run (buildQuery fs) (database w) = (Reply d' (Some err'), db'') \<longrightarrow>
      fetchFMCSARegisterEntries run fs w =
        ([], w\<lparr>console := console w @ [ConsoleError ''Supabase fetch error:'' err'],
               database := db''\<rparr>))
   \<and> (run (buildQuery fs) (database w) = (Thrown err', db'') \<longrightarrow>
      fetchFMCSARegisterEntries run fs w =
        ([], w\<lparr>console := console w @ [ConsoleError ''Exception fetching from Supabase:'' err'],
               database := db''\<rparr>))"
  by (auto simp: saveFMCSARegisterEntries_def fetchFMCSARegisterEntries_def Let_def)

text \<open>The same at an upsert of one row that fails and at a query that fails.\<close>

theorem persistence_failures_witness:
  "[sampleRow] \<noteq> []
   \<and> failingUpsert (prepareRecords (\<lambda>k. []) [sampleRow] (js ''2026-02-20'')) (database quietWorld) =
       (Reply None (Some (JsError ''permission denied'')), 1)
   \<and> fst (saveFMCSARegisterEntries failingUpsert (\<lambda>k. []) (Some [sampleRow]) (js ''2026-02-20'')
            quietWorld) =
       SaveResult False (Some ''permission denied'') None
   \<and> failingQuery (buildQuery None) (database quietWorld) =
       (Reply None (Some (JsError ''connection refused'')), 0)
   \<and> fetchFMCSARegisterEntries failingQuery None quietWorld =
       ([], \<lparr>console = [ConsoleError ''Supabase fetch error:'' (JsError ''connection refused'')],
             database = 0\<rparr>)
   \<and> throwingQuery (buildQuery None) (database quietWorld) = (Thrown (JsError ''fetch failed''), 0)
   \<and> fetchFMCSARegisterEntries throwingQuery None quietWorld =
       ([], \<lparr>console = [ConsoleError ''Exception fetching from Supabase:'' (JsError ''fetch failed'')],
             database = 0\<rparr>)"
proof -
  have u: "failingUpsert (prepareRecords (\<lambda>k. []) [sampleRow] (js ''2026-02-20'')) (database quietWorld) =
       (Reply None (Some (JsError ''permission denied'')), 1)"
    by (simp add: failingUpsert_def quietWorld_def)
  have q: "failingQuery (buildQuery None) (database quietWorld) =
       (Reply None (Some (JsError ''connection refused'')), 0)"
    by (simp add: failingQuery_def quietWorld_def)
  have t: "throwingQuery (buildQuery None) (database quietWorld) = (Thrown (JsError ''fetch failed''), 0)"
    by (simp add: throwingQuery_def quietWorld_def)
  have n: "[sampleRow] \<noteq> []" by simp
  from persistence_failures[where es = "[sampleRow]" and upsert = failingUpsert and now = "\<lambda>k. []"
      and fetchDate = "js ''2026-02-20''" and w = quietWorld
      and r = "Reply None (Some (JsError ''permission denied''))" and db' = 1
      and err = "JsError ''permission denied''" and d = None
      and run = failingQuery and fs = None
      and db'' = 0 and err' = "JsError ''connection refused''" and d' = None] u q n
  have s1: "fst (saveFMCSARegisterEntries failingUpsert (\<lambda>k. []) (Some [sampleRow]) (js ''2026-02-20'')
            quietWorld) = SaveResult False (Some (message (JsError ''permission denied''))) None"
    and f1: "fetchFMCSARegisterEntries failingQuery None quietWorld =
       ([], quietWorld\<lparr>console := console quietWorld @
               [ConsoleError ''Supabase fetch error:'' (JsError ''connection refused'')],
             database := 0\<rparr>)"
    by blast+
  from persistence_failures[where w = quietWorld and run = throwingQuery and fs = None
      and db'' = 0 and err' = "JsError ''fetch failed''"] t
  have f2: "fetchFMCSARegisterEntries throwingQuery None quietWorld =
       ([], quietWorld\<lparr>console := console quietWorld @
               [ConsoleError ''Exception fetching from Supabase:'' (JsError ''fetch failed'')],
             database := 0\<rparr>)"
    by blast
  from s1 f1 f2 u q t n show ?thesis by (simp add: quietWorld_def)
qed

text \<open>
  Claim C10. \<open>saveFMCSARegisterEntries\<close> with \<open>null\<close>, \<open>undefined\<close> or an empty list of
  entries returns \<open>{ success: true, count: 0 }\<close> and leaves the storage and the console as
  they were, whatever the upsert would do: the upsert is not called.
\<close>

theorem save_nothing_without_storage:
  "entries0 = None \<or> entries0 = Some [] \<Longrightarrow>
     saveFMCSARegisterEntries upsert now entries0 fetchDate w = (SaveResult True None (Some 0), w)"
  by (auto simp: saveFMCSARegisterEntries_def)

text \<open>
  The same with an upsert that counts its calls in the storage state: the count stays 0
  for no entries and for the empty list, and is 1 after saving one row.
\<close>

theorem save_nothing_without_storage_witness:
  "saveFMCSARegisterEntries countingUpsert (\<lambda>k. []) None (js ''2026-02-20'') quietWorld =
     (SaveResult True None (Some 0), quietWorld)
   \<and> saveFMCSARegisterEntries countingUpsert (\<lambda>k. []) (Some []) (js ''2026-02-20'') quietWorld =
     (SaveResult True None (Some 0), quietWorld)
   \<and> database quietWorld = 0
   \<and> database (snd (saveFMCSARegisterEntries countingUpsert (\<lambda>k. []) (Some [sampleRow])
                       (js ''2026-02-20'') quietWorld)) = 1"
proof -
  have "database quietWorld = 0" by (simp add: quietWorld_def)
  moreover have "database (snd (saveFMCSARegisterEntries countingUpsert (\<lambda>k. []) (Some [sampleRow])
                       (js ''2026-02-20'') quietWorld)) = 1"
    by (simp add: saveFMCSARegisterEntries_def countingUpsert_def quietWorld_def)
  ultimately show ?thesis
    using save_nothing_without_storage[of None countingUpsert "\<lambda>k. []" "js ''2026-02-20''" quietWorld]
      save_nothing_without_storage[of "Some []" countingUpsert "\<lambda>k. []" "js ''2026-02-20''" quietWorld]
    by simp
qed

end
